theory Spec2Isabelle
  imports Main
begin

section \<open>The deployer of ssh-deploy-release.js as a trace-producing state machine\<close>

text \<open>
  The class of \<^verbatim>\<open>src/ssh-deploy-release.js\<close> drives a remote transport, a logger, an
  archiver and user hooks through callbacks. The embedding makes every call to one of
  these collaborators an event of a trace, and lets an environment decide how each
  collaborator answers (whether it invokes the callback it was handed, and with what).
  A task of the class becomes a function from the state (the trace so far and the
  options object, which the class can assign to) to the new state and the way the task
  signalled.
\<close>

subsection \<open>Data\<close>

text \<open>
  A value of the \<^verbatim>\<open>share\<close> mapping: a bare symlink name, or a descriptor object with the
  optional properties \<^verbatim>\<open>symlink\<close> and \<^verbatim>\<open>mode\<close>, both strings. Values of other
  JavaScript types are outside the model.
\<close>

datatype share_value =
  Name string
| Descriptor "string option" "string option"

text \<open>
  A command-list option (\<^verbatim>\<open>onBeforeDeployExecute\<close> and its siblings): absent, a static
  list, or a function of the context. A function is the caller's code; the value kept
  here only says which function it is, and the environment says what a call of it does.
\<close>

datatype middleware =
  MwAbsent
| MwStatic "string list"
| MwDynamic nat

text \<open>
  The options object, with the properties the class reads. An optional list is None
  when the property is undefined; \<^verbatim>\<open>share\<close> is None when undefined, and otherwise the
  object's own properties in the order of \<^verbatim>\<open>Object.keys\<close>.
\<close>

record options =
  host :: string
  mode :: string
  archiveType :: string
  archiveName :: string
  localPath :: string
  exclude :: "string list"
  deployPath :: string
  releasesFolder :: string
  sharedFolder :: string
  synchronizedFolder :: string
  currentReleaseLink :: string
  share :: "(string \<times> share_value) list option"
  create :: "string list option"
  makeWritable :: "string list option"
  makeExecutable :: "string list option"
  releasesToKeep :: int
  deleteLocalArchiveAfterDeployment :: bool
  onBeforeDeployExecute :: middleware
  onBeforeLinkExecute :: middleware
  onAfterDeployExecute :: middleware

record release =
  tag :: string
  name :: string
  path :: string

text \<open>The calls the class makes on the remote transport (\<^verbatim>\<open>this.remote\<close>).\<close>

datatype remote_call =
  Connect
| Close
| Exec string bool
| Upload string string
| Synchronize string string string
| CreateSymboliclink string string
| Chmod string string
| CreateFolder string
| RemoveOldFolders string int

datatype log_call =
  Subhead string
| Log string
| Ok string
| Error "string list"
| Fatal string
| StartSpinner string
| StopSpinner

datatype hook = OnBeforeDeploy | OnBeforeLink | OnAfterDeploy

datatype event =
  Remote remote_call
| Logger log_call
| Console string
| Compress string string string "string list"
| Hook hook
| Unlink string
| Completion "string option"

text \<open>
  How a collaborator answers a call that was handed a completion callback: it never
  invokes the callback, it invokes it with a falsy first argument, or with a truthy one
  (an error).
\<close>

datatype reply = NoCallback | Success | Failure string

text \<open>\<^verbatim>\<open>remote.connect(onSuccess, onError, onClose)\<close>: which of the first two handlers runs.\<close>

datatype connect_reply = Connected | ConnectError "string option" | ConnectSilent

text \<open>\<^verbatim>\<open>archiver.compress(onSuccess(fileSize), onError(err))\<close>.\<close>

datatype compress_reply = Compressed string | CompressError string | CompressSilent

text \<open>
  The two handlers the class hands to the transport for later use: the error handler
  given to \<^verbatim>\<open>createRemote\<close>, with its command and error, and the close handler given to
  \<^verbatim>\<open>connect\<close>.
\<close>

datatype handler_call = OnError string string | OnClose

text \<open>
  The environment: every answer may depend on the trace so far.

  The caller's code receives the context, whose \<^verbatim>\<open>options\<close> is the options object of the
  deployer itself, so it can assign to it: a hook leaves the options it was called with
  as \<^verbatim>\<open>hookOptions\<close> says, and a command-list function returns its list (or a falsy value,
  None) and leaves the options as the second component of \<^verbatim>\<open>commandsResult\<close> says.

  The helper \<^verbatim>\<open>utils.getReversePath\<close> is not among the sources and is a parameter:
  \<^verbatim>\<open>getReversePath\<close> is its result for a string, \<^verbatim>\<open>reversePathOfObject\<close> its result when it is
  handed an object instead (None: it throws).

  The last two fields are the platform's: JavaScript's loose comparison \<^verbatim>\<open>s == 0\<close> for a
  string, and whether \<^verbatim>\<open>fs.unlink\<close> insists on a callback (it throws a TypeError without
  one since Node 10, and only warned before).
\<close>

record env =
  remoteReply :: "event list \<Rightarrow> remote_call \<Rightarrow> reply"
  remoteHandlers :: "event list \<Rightarrow> remote_call \<Rightarrow> handler_call list"
  connectReply :: "event list \<Rightarrow> connect_reply"
  compressReply :: "event list \<Rightarrow> compress_reply"
  hookReply :: "event list \<Rightarrow> hook \<Rightarrow> reply"
  hookOptions :: "event list \<Rightarrow> hook \<Rightarrow> options \<Rightarrow> options"
  commandsResult :: "event list \<Rightarrow> nat \<Rightarrow> options \<Rightarrow> string list option \<times> options"
  getReversePath :: "string \<Rightarrow> string"
  reversePathOfObject :: "string option"
  stringEqualsZero :: "string \<Rightarrow> bool"
  unlinkNeedsCallback :: bool

record state =
  trace :: "event list"
  options :: options

text \<open>
  How a task ends: it calls its callback with nothing (Next) or with an error (Fail), it
  never calls it (Stalled), an exception escapes (Thrown), or the process is terminated
  (Exited).
\<close>

datatype outcome = Next | Fail string | Stalled | Thrown string | Exited

subsection \<open>The platform's string and path functions\<close>

text \<open>\<^verbatim>\<open>s.split('/')\<close>: the pieces between the separators; one piece for a string without one.\<close>

fun splitOn :: "char \<Rightarrow> string \<Rightarrow> string list" where
  "splitOn c [] = [[]]"
| "splitOn c (x # xs) =
     (if x = c then [] # splitOn c xs
      else (case splitOn c xs of p # ps \<Rightarrow> (x # p) # ps | [] \<Rightarrow> [[x]]))"

text \<open>\<^verbatim>\<open>pieces.join(sep)\<close>.\<close>

fun joinWith :: "string \<Rightarrow> string list \<Rightarrow> string" where
  "joinWith sep [] = []"
| "joinWith sep [p] = p"
| "joinWith sep (p # q # ps) = p @ sep @ joinWith sep (q # ps)"

text \<open>
  Node's \<^verbatim>\<open>path.posix.join\<close>. Its \<^verbatim>\<open>normalizeString\<close> walks the segments: an empty segment
  and \<^verbatim>\<open>.\<close> are dropped, \<^verbatim>\<open>..\<close> removes the segment before it unless there is none or it is
  \<^verbatim>\<open>..\<close> itself (then it is kept when the path is relative), any other segment is kept.
  The accumulator holds the kept segments, last one first.
\<close>

fun normalizeSegments :: "bool \<Rightarrow> string list \<Rightarrow> string list \<Rightarrow> string list" where
  "normalizeSegments allowAboveRoot acc [] = rev acc"
| "normalizeSegments allowAboveRoot acc (seg # segs) =
     (if seg = [] \<or> seg = ''.'' then normalizeSegments allowAboveRoot acc segs
      else if seg = ''..'' then
        (case acc of
           [] \<Rightarrow> normalizeSegments allowAboveRoot (if allowAboveRoot then [''..''] else []) segs
         | a # as \<Rightarrow>
             if a = ''..''
             then normalizeSegments allowAboveRoot (if allowAboveRoot then ''..'' # acc else acc) segs
             else normalizeSegments allowAboveRoot as segs)
      else normalizeSegments allowAboveRoot (seg # acc) segs)"

definition normalizeString :: "string \<Rightarrow> bool \<Rightarrow> string" where
  "normalizeString p allowAboveRoot =
     joinWith ''/'' (normalizeSegments allowAboveRoot [] (splitOn CHR ''/'' p))"

definition posix_normalize :: "string \<Rightarrow> string" where
  "posix_normalize p =
     (if p = [] then ''.''
      else
        let isAbsolute = (hd p = CHR ''/'');
            trailingSeparator = (last p = CHR ''/'');
            q = normalizeString p (\<not> isAbsolute)
        in if q = [] then (if isAbsolute then ''/'' else if trailingSeparator then ''./'' else ''.'')
           else (if isAbsolute then ''/'' else []) @ q @ (if trailingSeparator then ''/'' else []))"

definition posix_join :: "string list \<Rightarrow> string" where
  "posix_join args =
     (let parts = filter (\<lambda>a. a \<noteq> []) args
      in if parts = [] then ''.'' else posix_normalize (joinWith ''/'' parts))"

subsection \<open>Calls on the collaborators\<close>

definition emits :: "event list \<Rightarrow> state \<Rightarrow> state" where
  "emits es s = s\<lparr>trace := trace s @ es\<rparr>"

text \<open>
  The error handler that \<^verbatim>\<open>connectToRemoteTask\<close> gives to \<^verbatim>\<open>createRemote\<close>, and the close
  handler it gives to \<^verbatim>\<open>connect\<close>.
\<close>

fun handlerEvents :: "options \<Rightarrow> handler_call \<Rightarrow> event list" where
  "handlerEvents opts (OnError command error) =
     [Console command, Logger (Error [''Connection error'', command, error])]"
| "handlerEvents opts OnClose = [Logger (Subhead (''Closed from '' @ host opts))]"

text \<open>
  A call on the transport: the call is recorded, the transport may run the handlers, and
  the answer says what becomes of the callback.
\<close>

definition remoteCall :: "env \<Rightarrow> remote_call \<Rightarrow> state \<Rightarrow> reply \<times> state" where
  "remoteCall e c s =
     (remoteReply e (trace s) c,
      emits (Remote c # concat (map (handlerEvents (options s)) (remoteHandlers e (trace s) c))) s)"

text \<open>
  Modelled from the spec: \<^verbatim>\<open>logger.fatal\<close> (the logger module is not among the sources).
  The spec says that fatal conditions terminate the process after logging, so a call is
  the log event followed by the end of the process.
\<close>

definition fatal :: "string \<Rightarrow> state \<Rightarrow> state \<times> outcome" where
  "fatal message s = (emits [Logger (Fatal message)] s, Exited)"

text \<open>
  \<^verbatim>\<open>async.eachSeries(items, iteratee, final)\<close>: the items one at a time; an item that signals
  an error ends the iteration with that error, and the final callback runs in both cases.
  The result is what the final callback receives, or how the iteration broke off.
\<close>

fun eachSeries :: "('a \<Rightarrow> state \<Rightarrow> state \<times> outcome) \<Rightarrow> 'a list \<Rightarrow> state \<Rightarrow> state \<times> outcome" where
  "eachSeries iteratee [] s = (s, Next)"
| "eachSeries iteratee (x # xs) s =
     (case iteratee x s of
        (s', Next) \<Rightarrow> eachSeries iteratee xs s'
      | (s', r) \<Rightarrow> (s', r))"

text \<open>
  A final callback of the form \<^verbatim>\<open>() => { this.logger.ok('Done'); done(); }\<close>: it runs when the
  iteration ended, with or without an error, and drops the error.
\<close>

fun okDone :: "state \<times> outcome \<Rightarrow> state \<times> outcome" where
  "okDone (s, Next) = (emits [Logger (Ok ''Done'')] s, Next)"
| "okDone (s, Fail err) = (emits [Logger (Ok ''Done'')] s, Next)"
| "okDone (s, r) = (s, r)"

text \<open>
  A callback handed to the transport as it is (\<^verbatim>\<open>itemDone\<close>, \<^verbatim>\<open>innerCallback\<close>, \<^verbatim>\<open>done\<close>): the
  transport's first argument becomes the task's signal.
\<close>

fun passed :: "reply \<times> state \<Rightarrow> state \<times> outcome" where
  "passed (NoCallback, s) = (s, Stalled)"
| "passed (Success, s) = (s, Next)"
| "passed (Failure err, s) = (s, Fail err)"

text \<open>
  A callback of the form \<^verbatim>\<open>() => { ...; done(); }\<close> handed to the transport: when the transport
  invokes it, whatever the arguments, the events happen and the task signals completion.
\<close>

fun called :: "event list \<Rightarrow> reply \<times> state \<Rightarrow> state \<times> outcome" where
  "called es (NoCallback, s) = (s, Stalled)"
| "called es (Success, s) = (emits es s, Next)"
| "called es (Failure err, s) = (emits es s, Next)"

subsection \<open>The tasks\<close>

text \<open>
  A hook is the caller's function, and the options are taken to hold all three of them.
  A call \<^verbatim>\<open>this.options.onBeforeDeploy(this.context, done)\<close> is recorded as an event; the
  environment decides how the hook signals and what it has made of the options, which it
  reaches through the context. The calls a hook itself makes on the transport or the
  logger are the caller's and not part of the trace.
\<close>

definition callHook :: "env \<Rightarrow> hook \<Rightarrow> state \<Rightarrow> state \<times> outcome" where
  "callHook e h s =
     passed (hookReply e (trace s) h,
             (emits [Hook h] s)\<lparr>options := hookOptions e (trace s) h (options s)\<rparr>)"

definition onBeforeDeployTask :: "env \<Rightarrow> release \<Rightarrow> state \<Rightarrow> state \<times> outcome" where
  "onBeforeDeployTask e rel s = callHook e OnBeforeDeploy s"

text \<open>
  The second half of \<^verbatim>\<open>middlewareCallbackExecute\<close>, from \<^verbatim>\<open>// Nothing to execute\<close> on: the
  resolved commands, one after the other.
\<close>

definition executeCommands :: "env \<Rightarrow> string list option \<Rightarrow> state \<Rightarrow> state \<times> outcome" where
  "executeCommands e commands s =
     (case commands of
        None \<Rightarrow> (s, Next)
      | Some l \<Rightarrow>
          if length l = 0 then (s, Next)
          else okDone (eachSeries
            (\<lambda>command s'.
               passed (remoteCall e (Exec command True)
                 (emits [Logger (Subhead (''Execute on remote : '' @ command))] s')))
            l s))"

text \<open>
  A function is called once, with the context: \<^verbatim>\<open>commands = commandsFunction(this.context)\<close>.
  The call yields the commands and may have assigned to the options.
\<close>

definition middlewareCallbackExecute :: "env \<Rightarrow> middleware \<Rightarrow> state \<Rightarrow> state \<times> outcome" where
  "middlewareCallbackExecute e commandsFunction s =
     (case commandsFunction of
        MwAbsent \<Rightarrow> (s, Next)
      | MwStatic l \<Rightarrow> executeCommands e (Some l) s
      | MwDynamic k \<Rightarrow>
          executeCommands e (fst (commandsResult e (trace s) k (options s)))
            (s\<lparr>options := snd (commandsResult e (trace s) k (options s))\<rparr>))"

definition onBeforeDeployExecuteTask :: "env \<Rightarrow> release \<Rightarrow> state \<Rightarrow> state \<times> outcome" where
  "onBeforeDeployExecuteTask e rel s =
     middlewareCallbackExecute e (onBeforeDeployExecute (options s)) s"

definition compressReleaseTask :: "env \<Rightarrow> release \<Rightarrow> state \<Rightarrow> state \<times> outcome" where
  "compressReleaseTask e rel s =
     (if mode (options s) \<noteq> ''archive'' then (s, Next)
      else
        let s1 = emits [Logger (Subhead ''Compress release''),
                        Logger (StartSpinner ''Compressing''),
                        Compress (archiveType (options s)) (archiveName (options s))
                          (localPath (options s)) (exclude (options s))] s
        in case compressReply e (trace s) of
             Compressed fileSize \<Rightarrow>
               (emits [Logger StopSpinner, Logger (Ok (''Archive created : '' @ fileSize))] s1, Next)
           | CompressError err \<Rightarrow>
               (emits [Logger StopSpinner, Logger (Error [''Error while compressing''])] s1,
                Thrown err)
           | CompressSilent \<Rightarrow> (s1, Stalled))"

definition connectToRemoteTask :: "env \<Rightarrow> release \<Rightarrow> state \<Rightarrow> state \<times> outcome" where
  "connectToRemoteTask e rel s =
     (let s1 = emits [Logger (Subhead (''Connect to '' @ host (options s))),
                      Logger (StartSpinner ''Connecting'')] s;
          s2 = snd (remoteCall e Connect s1)
      in case connectReply e (trace s1) of
           Connected \<Rightarrow> (emits [Logger StopSpinner, Logger (Ok ''Connected'')] s2, Next)
         | ConnectError error \<Rightarrow>
             (case error of
                None \<Rightarrow> (emits [Logger StopSpinner] s2, Stalled)
              | Some message \<Rightarrow> fatal message (emits [Logger StopSpinner] s2))
         | ConnectSilent \<Rightarrow> (s2, Stalled))"

definition createReleaseFolderOnRemoteTask :: "env \<Rightarrow> release \<Rightarrow> state \<Rightarrow> state \<times> outcome" where
  "createReleaseFolderOnRemoteTask e rel s =
     called [Logger (Ok ''Done'')]
       (remoteCall e (CreateFolder (path rel))
          (emits [Logger (Subhead ''Create release folder on remote''),
                  Logger (Log ('' - '' @ path rel))] s))"

definition uploadArchiveTask :: "env \<Rightarrow> release \<Rightarrow> state \<Rightarrow> state \<times> outcome" where
  "uploadArchiveTask e rel s =
     (if mode (options s) \<noteq> ''archive'' then (s, Next)
      else
        case remoteCall e (Upload (archiveName (options s)) (path rel))
               (emits [Logger (Subhead ''Upload archive to remote''),
                       Logger (StartSpinner ''Uploading'')] s) of
          (NoCallback, s') \<Rightarrow> (s', Stalled)
        | (Failure error, s') \<Rightarrow> (emits [Logger StopSpinner, Logger (Error [error])] s', Stalled)
        | (Success, s') \<Rightarrow> (emits [Logger StopSpinner, Logger (Ok ''Done'')] s', Next))"

definition uploadReleaseTask :: "env \<Rightarrow> release \<Rightarrow> state \<Rightarrow> state \<times> outcome" where
  "uploadReleaseTask e rel s =
     (if mode (options s) \<noteq> ''synchronize'' then (s, Next)
      else
        called [Logger StopSpinner, Logger (Ok ''Done'')]
          (remoteCall e
             (Synchronize (localPath (options s)) (path rel)
                (deployPath (options s) @ ''/'' @ synchronizedFolder (options s)))
             (emits [Logger (Subhead ''Synchronize remote server''),
                     Logger (StartSpinner ''Synchronizing'')] s)))"

text \<open>
  A property read on an object literal, \<^verbatim>\<open>obj[key]\<close>: the literal's own property, a member
  every object inherits from \<^verbatim>\<open>Object.prototype\<close>, or undefined.
\<close>

datatype property = Own string | Inherited string | Undefined

definition objectPrototypeMembers :: "string list" where
  "objectPrototypeMembers =
     [''constructor'', ''hasOwnProperty'', ''isPrototypeOf'', ''propertyIsEnumerable'',
      ''toLocaleString'', ''toString'', ''valueOf'', ''__proto__'',
      ''__defineGetter__'', ''__defineSetter__'', ''__lookupGetter__'', ''__lookupSetter__'']"

fun truthy :: "property \<Rightarrow> bool" where
  "truthy (Own v) = (v \<noteq> [])"
| "truthy (Inherited member) = True"
| "truthy Undefined = False"

text \<open>
  What \<^verbatim>\<open>Array.prototype.join\<close> makes of an element: undefined becomes the empty string, an
  inherited member its text (a native function's source text, or \<^verbatim>\<open>[object Object]\<close> for
  the prototype object itself).
\<close>

fun joined :: "property \<Rightarrow> string" where
  "joined (Own v) = v"
| "joined (Inherited member) =
     (if member = ''__proto__'' then ''[object Object]''
      else if member = ''constructor'' then ''function Object() { [native code] }''
      else ''function '' @ member @ ''() { [native code] }'')"
| "joined Undefined = []"

definition untarMap :: "string \<Rightarrow> string \<Rightarrow> string \<Rightarrow> property" where
  "untarMap archivePath releasePath key =
     (if key = ''zip'' then Own (''unzip -q '' @ archivePath @ '' -d '' @ releasePath @ ''/'')
      else if key = ''tar'' then Own (''tar -xvf '' @ archivePath @ '' -C '' @ releasePath @ ''/'')
      else if key \<in> set objectPrototypeMembers then Inherited key
      else Undefined)"

definition decompressArchiveOnRemoteTask :: "env \<Rightarrow> release \<Rightarrow> state \<Rightarrow> state \<times> outcome" where
  "decompressArchiveOnRemoteTask e rel s =
     (if mode (options s) \<noteq> ''archive'' then (s, Next)
      else
        let s1 = emits [Logger (Subhead ''Decompress archive on remote''),
                        Logger (StartSpinner ''Decompressing'')] s;
            archivePath = posix_join [path rel, archiveName (options s)];
            entry = untarMap archivePath (path rel) (archiveType (options s))
        in if \<not> truthy entry then fatal (archiveType (options s) @ '' not supported.'') s1
           else
             let command = joinWith [CHR 0x0A] [joined entry, ''rm '' @ archivePath]
             in called [Logger StopSpinner, Logger (Ok ''Done'')]
                  (remoteCall e (Exec command False) s1))"

definition onBeforeLinkTask :: "env \<Rightarrow> release \<Rightarrow> state \<Rightarrow> state \<times> outcome" where
  "onBeforeLinkTask e rel s = callHook e OnBeforeLink s"

definition onBeforeLinkExecuteTask :: "env \<Rightarrow> release \<Rightarrow> state \<Rightarrow> state \<times> outcome" where
  "onBeforeLinkExecuteTask e rel s =
     middlewareCallbackExecute e (onBeforeLinkExecute (options s)) s"

text \<open>
  The target of a shared symlink, as the iteratee of \<^verbatim>\<open>updateSharedSymbolicLinkOnRemoteTask\<close>
  builds it from the helper's result:
  \<^verbatim>\<open>upwardPath + '/../' + this.options.sharedFolder + '/' + currentSharedFolder\<close>.
\<close>

definition linkTarget :: "string \<Rightarrow> options \<Rightarrow> string \<Rightarrow> string" where
  "linkTarget upwardPath opts currentSharedFolder =
     upwardPath @ ''/../'' @ sharedFolder opts @ ''/'' @ currentSharedFolder"

text \<open>
  \<^verbatim>\<open>!mode\<close> for the local \<^verbatim>\<open>mode\<close> of the iteratee: null when the descriptor has no such
  property, falsy as well when the property is the empty string.
\<close>

fun falsy :: "string option \<Rightarrow> bool" where
  "falsy None = True"
| "falsy (Some m) = (m = [])"

text \<open>
  The locals of the iteratee for one property of \<^verbatim>\<open>share\<close>. The symlink name is the bare
  value or the descriptor's \<^verbatim>\<open>symlink\<close>; a descriptor without that property leaves the
  descriptor object itself as the name (None below), which string concatenation renders
  as \<^verbatim>\<open>[object Object]\<close>. The mode is the descriptor's \<^verbatim>\<open>mode\<close>, and null (None) without it.
\<close>

fun symlinkName :: "share_value \<Rightarrow> string option" where
  "symlinkName (Name n) = Some n"
| "symlinkName (Descriptor sy mo) = sy"

fun linkMode :: "share_value \<Rightarrow> string option" where
  "linkMode (Name n) = None"
| "linkMode (Descriptor sy mo) = mo"

definition shownName :: "share_value \<Rightarrow> string" where
  "shownName configValue = (case symlinkName configValue of Some n \<Rightarrow> n | None \<Rightarrow> ''[object Object]'')"

definition linkPath :: "release \<Rightarrow> share_value \<Rightarrow> string" where
  "linkPath rel configValue = path rel @ ''/'' @ shownName configValue"

definition upwardPath :: "env \<Rightarrow> share_value \<Rightarrow> string option" where
  "upwardPath e configValue =
     (case symlinkName configValue of
        Some n \<Rightarrow> Some (getReversePath e n)
      | None \<Rightarrow> reversePathOfObject e)"

text \<open>
  The iteratee: when the helper throws, nothing is logged or called; otherwise the link
  is created, and in the callback of that call the mode decides whether \<^verbatim>\<open>chmod\<close> follows.
\<close>

definition shareItem :: "env \<Rightarrow> release \<Rightarrow> string \<times> share_value \<Rightarrow> state \<Rightarrow> state \<times> outcome" where
  "shareItem e rel item s =
     (let currentSharedFolder = fst item;
          configValue = snd item
      in case upwardPath e configValue of
           None \<Rightarrow> (s, Thrown ''TypeError'')
         | Some up \<Rightarrow>
             (case remoteCall e
                     (CreateSymboliclink (linkTarget up (options s) currentSharedFolder)
                        (linkPath rel configValue))
                     (emits [Logger (Log ('' - '' @ shownName configValue @ '' ==> ''
                                           @ currentSharedFolder))] s) of
                (NoCallback, s') \<Rightarrow> (s', Stalled)
              | (r, s') \<Rightarrow>
                  (case linkMode configValue of
                     None \<Rightarrow> (s', Next)
                   | Some m \<Rightarrow>
                       if falsy (Some m) then (s', Next)
                       else called []
                              (remoteCall e (Chmod (linkPath rel configValue) m)
                                 (emits [Logger (Log (''   chmod '' @ m))] s')))))"

text \<open>
  \<^verbatim>\<open>this.options.share.length == 0\<close> on the mapping: the own property named \<^verbatim>\<open>length\<close>, if
  there is one, compared loosely with 0. Without such a property the value is undefined,
  which is not loosely equal to 0; a descriptor object is not either.
\<close>

definition shareLengthIsZero :: "env \<Rightarrow> (string \<times> share_value) list \<Rightarrow> bool" where
  "shareLengthIsZero e sh =
     (case map_of sh ''length'' of
        None \<Rightarrow> False
      | Some (Name v) \<Rightarrow> stringEqualsZero e v
      | Some (Descriptor sy mo) \<Rightarrow> False)"

definition updateSharedSymbolicLinkOnRemoteTask :: "env \<Rightarrow> release \<Rightarrow> state \<Rightarrow> state \<times> outcome" where
  "updateSharedSymbolicLinkOnRemoteTask e rel s =
     (case share (options s) of
        None \<Rightarrow> (s, Next)
      | Some sh \<Rightarrow>
          if shareLengthIsZero e sh then (s, Next)
          else okDone (eachSeries (shareItem e rel) sh
                 (emits [Logger (Subhead ''Update shared symlink on remote'')] s)))"

definition createFolderTask :: "env \<Rightarrow> release \<Rightarrow> state \<Rightarrow> state \<times> outcome" where
  "createFolderTask e rel s =
     (case create (options s) of
        None \<Rightarrow> (s, Next)
      | Some l \<Rightarrow>
          if length l = 0 then (s, Next)
          else okDone (eachSeries
                 (\<lambda>currentFolderToCreate s'.
                    passed (remoteCall e (CreateFolder (path rel @ ''/'' @ currentFolderToCreate))
                      (emits [Logger (Log ('' - '' @ currentFolderToCreate))] s')))
                 l (emits [Logger (Subhead ''Create folders on remote'')] s)))"

definition makeDirectoriesWritableTask :: "env \<Rightarrow> release \<Rightarrow> state \<Rightarrow> state \<times> outcome" where
  "makeDirectoriesWritableTask e rel s =
     (case makeWritable (options s) of
        None \<Rightarrow> (s, Next)
      | Some l \<Rightarrow>
          if length l = 0 then (s, Next)
          else okDone (eachSeries
                 (\<lambda>currentFolderToMakeWritable s'.
                    passed (remoteCall e
                      (Chmod (path rel @ ''/'' @ currentFolderToMakeWritable) ''ugo+w'')
                      (emits [Logger (Log ('' - '' @ currentFolderToMakeWritable))] s')))
                 l (emits [Logger (Subhead ''Make folders writable on remote'')] s)))"

definition makeFilesExecutableTask :: "env \<Rightarrow> release \<Rightarrow> state \<Rightarrow> state \<times> outcome" where
  "makeFilesExecutableTask e rel s =
     (case makeExecutable (options s) of
        None \<Rightarrow> (s, Next)
      | Some l \<Rightarrow>
          if length l = 0 then (s, Next)
          else okDone (eachSeries
                 (\<lambda>currentFileToMakeExecutable s'.
                    passed (remoteCall e
                      (Exec (''chmod ugo+x '' @ path rel @ ''/'' @ currentFileToMakeExecutable) False)
                      (emits [Logger (Log ('' - '' @ currentFileToMakeExecutable))] s')))
                 l (emits [Logger (Subhead ''Make files executables on remote'')] s)))"

definition updateCurrentSymbolicLinkOnRemoteTask :: "env \<Rightarrow> release \<Rightarrow> state \<Rightarrow> state \<times> outcome" where
  "updateCurrentSymbolicLinkOnRemoteTask e rel s =
     (let target = releasesFolder (options s) @ ''/'' @ tag rel;
          currentPath = posix_join [deployPath (options s), currentReleaseLink (options s)]
      in called [Logger (Ok ''Done'')]
           (remoteCall e (CreateSymboliclink target currentPath)
              (emits [Logger (Subhead ''Update current release symlink on remote'')] s)))"

definition onAfterDeployTask :: "env \<Rightarrow> release \<Rightarrow> state \<Rightarrow> state \<times> outcome" where
  "onAfterDeployTask e rel s = callHook e OnAfterDeploy s"

definition onAfterDeployExecuteTask :: "env \<Rightarrow> release \<Rightarrow> state \<Rightarrow> state \<times> outcome" where
  "onAfterDeployExecuteTask e rel s =
     middlewareCallbackExecute e (onAfterDeployExecute (options s)) s"

text \<open>
  The cleanup task assigns to the options object before it calls the transport:
  \<^verbatim>\<open>if (this.options.releasesToKeep < 1) { this.options.releasesToKeep = 1; }\<close>.
\<close>

definition remoteCleanupTask :: "env \<Rightarrow> release \<Rightarrow> state \<Rightarrow> state \<times> outcome" where
  "remoteCleanupTask e rel s =
     (let s1 = emits [Logger (Subhead ''Remove old builds on remote''),
                      Logger (StartSpinner ''Removing'')] s;
          s2 = (if releasesToKeep (options s1) < 1
                then s1\<lparr>options := (options s1)\<lparr>releasesToKeep := 1\<rparr>\<rparr>
                else s1);
          folder = posix_join [deployPath (options s2), releasesFolder (options s2)]
      in called [Logger StopSpinner, Logger (Ok ''Done'')]
           (remoteCall e (RemoveOldFolders folder (releasesToKeep (options s2))) s2))"

text \<open>
  The task calls \<^verbatim>\<open>fs.unlink(this.options.archiveName)\<close> without a callback. Where the
  platform insists on one, the call throws before anything is removed, and neither the
  \<^verbatim>\<open>Done\<close> line nor \<^verbatim>\<open>done()\<close> is reached.
\<close>

definition deleteLocalArchiveTask :: "env \<Rightarrow> release \<Rightarrow> state \<Rightarrow> state \<times> outcome" where
  "deleteLocalArchiveTask e rel s =
     (if mode (options s) \<noteq> ''archive'' \<or> \<not> deleteLocalArchiveAfterDeployment (options s)
      then (s, Next)
      else if unlinkNeedsCallback e
      then (emits [Logger (Subhead ''Delete local archive'')] s, Thrown ''TypeError'')
      else (emits [Logger (Subhead ''Delete local archive''),
                   Unlink (archiveName (options s)),
                   Logger (Ok ''Done'')] s, Next))"

definition closeConnectionTask :: "env \<Rightarrow> release \<Rightarrow> state \<Rightarrow> state \<times> outcome" where
  "closeConnectionTask e rel s = passed (remoteCall e Close s)"

definition removeReleaseTask :: "env \<Rightarrow> release \<Rightarrow> state \<Rightarrow> state \<times> outcome" where
  "removeReleaseTask e rel s =
     called [Logger (Ok ''Done'')]
       (remoteCall e (Exec (''rm -rf '' @ deployPath (options s)) False)
          (emits [Logger (Subhead ''Remove releases on remote'')] s))"

subsection \<open>The two pipelines\<close>

text \<open>The bound task methods that the two entry points hand to \<^verbatim>\<open>async.series\<close>.\<close>

datatype task =
  ConnectToRemoteTask
| OnBeforeDeployTask
| OnBeforeDeployExecuteTask
| CompressReleaseTask
| CreateReleaseFolderOnRemoteTask
| UploadArchiveTask
| UploadReleaseTask
| DecompressArchiveOnRemoteTask
| OnBeforeLinkTask
| OnBeforeLinkExecuteTask
| UpdateSharedSymbolicLinkOnRemoteTask
| CreateFolderTask
| MakeDirectoriesWritableTask
| MakeFilesExecutableTask
| UpdateCurrentSymbolicLinkOnRemoteTask
| OnAfterDeployTask
| OnAfterDeployExecuteTask
| RemoteCleanupTask
| DeleteLocalArchiveTask
| CloseConnectionTask
| RemoveReleaseTask

fun runTask :: "env \<Rightarrow> release \<Rightarrow> task \<Rightarrow> state \<Rightarrow> state \<times> outcome" where
  "runTask e rel ConnectToRemoteTask = connectToRemoteTask e rel"
| "runTask e rel OnBeforeDeployTask = onBeforeDeployTask e rel"
| "runTask e rel OnBeforeDeployExecuteTask = onBeforeDeployExecuteTask e rel"
| "runTask e rel CompressReleaseTask = compressReleaseTask e rel"
| "runTask e rel CreateReleaseFolderOnRemoteTask = createReleaseFolderOnRemoteTask e rel"
| "runTask e rel UploadArchiveTask = uploadArchiveTask e rel"
| "runTask e rel UploadReleaseTask = uploadReleaseTask e rel"
| "runTask e rel DecompressArchiveOnRemoteTask = decompressArchiveOnRemoteTask e rel"
| "runTask e rel OnBeforeLinkTask = onBeforeLinkTask e rel"
| "runTask e rel OnBeforeLinkExecuteTask = onBeforeLinkExecuteTask e rel"
| "runTask e rel UpdateSharedSymbolicLinkOnRemoteTask = updateSharedSymbolicLinkOnRemoteTask e rel"
| "runTask e rel CreateFolderTask = createFolderTask e rel"
| "runTask e rel MakeDirectoriesWritableTask = makeDirectoriesWritableTask e rel"
| "runTask e rel MakeFilesExecutableTask = makeFilesExecutableTask e rel"
| "runTask e rel UpdateCurrentSymbolicLinkOnRemoteTask = updateCurrentSymbolicLinkOnRemoteTask e rel"
| "runTask e rel OnAfterDeployTask = onAfterDeployTask e rel"
| "runTask e rel OnAfterDeployExecuteTask = onAfterDeployExecuteTask e rel"
| "runTask e rel RemoteCleanupTask = remoteCleanupTask e rel"
| "runTask e rel DeleteLocalArchiveTask = deleteLocalArchiveTask e rel"
| "runTask e rel CloseConnectionTask = closeConnectionTask e rel"
| "runTask e rel RemoveReleaseTask = removeReleaseTask e rel"

text \<open>
  \<^verbatim>\<open>async.series(tasks, final)\<close>: each task is started when the one before it has called its
  callback without an error; a task that calls it with an error ends the series, and the
  final callback runs with that error. The result holds, besides the state and the way
  the series ended, the tasks that were started, in order, each with its signal.
\<close>

fun series :: "(task \<Rightarrow> state \<Rightarrow> state \<times> outcome) \<Rightarrow> task list \<Rightarrow> state
    \<Rightarrow> state \<times> outcome \<times> (task \<times> outcome) list" where
  "series run [] s = (s, Next, [])"
| "series run (t # ts) s =
     (case run t s of
        (s', Next) \<Rightarrow>
          (case series run ts s' of (s'', r, started) \<Rightarrow> (s'', r, (t, Next) # started))
      | (s', r) \<Rightarrow> (s', r, [(t, r)]))"

text \<open>
  The completion callback an entry point receives: absent (undefined), the method
  \<^verbatim>\<open>noop\<close> of the class, or the caller's function. An invocation of the caller's function
  is the event Completion, which holds the first argument of the invocation (None when
  there is none): the place where an error would reach the caller.
\<close>

datatype callback = Absent | Noop | Caller

text \<open>\<^verbatim>\<open>done || this.noop\<close>.\<close>

fun orNoop :: "callback \<Rightarrow> callback" where
  "orNoop Absent = Noop"
| "orNoop f = f"

text \<open>A call \<^verbatim>\<open>f(arg)\<close>: calling undefined throws a TypeError, \<^verbatim>\<open>noop\<close> does nothing.\<close>

fun invoke :: "callback \<Rightarrow> string option \<Rightarrow> state \<Rightarrow> state \<times> outcome" where
  "invoke Absent arg s = (s, Thrown ''TypeError: done is not a function'')"
| "invoke Noop arg s = (s, Next)"
| "invoke Caller arg s = (emits [Completion arg] s, Next)"

text \<open>
  The final callback of both entry points, \<^verbatim>\<open>function () { done(); }\<close>: it takes no
  parameter and calls \<^verbatim>\<open>done\<close> without an argument, whatever \<^verbatim>\<open>async.series\<close> hands it. It
  runs when the series ended (every task signalled completion, or one signalled an
  error), and not when a task never signalled, threw, or ended the process.
\<close>

fun final :: "callback \<Rightarrow> state \<times> outcome \<times> (task \<times> outcome) list \<Rightarrow> state \<times> outcome" where
  "final done (s, Next, started) = invoke done None s"
| "final done (s, Fail err, started) = invoke done None s"
| "final done (s, r, started) = (s, r)"

definition deployTasks :: "task list" where
  "deployTasks =
     [ConnectToRemoteTask,
      OnBeforeDeployTask,
      OnBeforeDeployExecuteTask,
      CompressReleaseTask,
      CreateReleaseFolderOnRemoteTask,
      UploadArchiveTask,
      UploadReleaseTask,
      DecompressArchiveOnRemoteTask,
      OnBeforeLinkTask,
      OnBeforeLinkExecuteTask,
      UpdateSharedSymbolicLinkOnRemoteTask,
      CreateFolderTask,
      MakeDirectoriesWritableTask,
      MakeFilesExecutableTask,
      UpdateCurrentSymbolicLinkOnRemoteTask,
      OnAfterDeployTask,
      OnAfterDeployExecuteTask,
      RemoteCleanupTask,
      DeleteLocalArchiveTask,
      CloseConnectionTask]"

definition removeTasks :: "task list" where
  "removeTasks = [ConnectToRemoteTask, RemoveReleaseTask, CloseConnectionTask]"

definition deployRelease :: "env \<Rightarrow> release \<Rightarrow> callback \<Rightarrow> state \<Rightarrow> state \<times> outcome" where
  "deployRelease e rel done s = final (orNoop done) (series (runTask e rel) deployTasks s)"

definition removeRelease :: "env \<Rightarrow> release \<Rightarrow> callback \<Rightarrow> state \<Rightarrow> state \<times> outcome" where
  "removeRelease e rel done s = final (orNoop done) (series (runTask e rel) removeTasks s)"

subsection \<open>What a run shows\<close>

text \<open>The events a step added to the trace, and the transport calls among some events.\<close>

definition news :: "state \<Rightarrow> state \<Rightarrow> event list" where
  "news s s' = drop (length (trace s)) (trace s')"

fun remoteCalls :: "event list \<Rightarrow> remote_call list" where
  "remoteCalls [] = []"
| "remoteCalls (Remote c # es) = c # remoteCalls es"
| "remoteCalls (x # es) = remoteCalls es"

text \<open>
  A step adds only events of a kind \<open>P\<close>, and leaves the options alone, when its new state
  is the old one with such events appended; the weaker form speaks of the trace only.
\<close>

definition adds :: "(event \<Rightarrow> bool) \<Rightarrow> (state \<Rightarrow> state \<times> outcome) \<Rightarrow> bool" where
  "adds P f = (\<forall>s. \<exists>es. fst (f s) = emits es s \<and> list_all P es)"

definition appends :: "(event \<Rightarrow> bool) \<Rightarrow> (state \<Rightarrow> state \<times> outcome) \<Rightarrow> bool" where
  "appends P f = (\<forall>s. \<exists>es. trace (fst (f s)) = trace s @ es \<and> list_all P es)"

definition quiet :: "(event \<Rightarrow> bool) \<Rightarrow> bool" where
  "quiet P = ((\<forall>l. P (Logger l)) \<and> (\<forall>c. P (Console c)))"

text \<open>The transport calls each task can make, and with them the events it can add.\<close>

fun remoteOf :: "task \<Rightarrow> remote_call \<Rightarrow> bool" where
  "remoteOf ConnectToRemoteTask c = (c = Connect)"
| "remoteOf OnBeforeDeployTask c = False"
| "remoteOf OnBeforeDeployExecuteTask c = (case c of Exec command showLog \<Rightarrow> showLog | _ \<Rightarrow> False)"
| "remoteOf CompressReleaseTask c = False"
| "remoteOf CreateReleaseFolderOnRemoteTask c = (case c of CreateFolder p \<Rightarrow> True | _ \<Rightarrow> False)"
| "remoteOf UploadArchiveTask c = (case c of Upload a p \<Rightarrow> True | _ \<Rightarrow> False)"
| "remoteOf UploadReleaseTask c = (case c of Synchronize a b d \<Rightarrow> True | _ \<Rightarrow> False)"
| "remoteOf DecompressArchiveOnRemoteTask c =
     (case c of Exec command showLog \<Rightarrow> \<not> showLog | _ \<Rightarrow> False)"
| "remoteOf OnBeforeLinkTask c = False"
| "remoteOf OnBeforeLinkExecuteTask c = (case c of Exec command showLog \<Rightarrow> showLog | _ \<Rightarrow> False)"
| "remoteOf UpdateSharedSymbolicLinkOnRemoteTask c =
     (case c of CreateSymboliclink t l \<Rightarrow> True | Chmod p m \<Rightarrow> True | _ \<Rightarrow> False)"
| "remoteOf CreateFolderTask c = (case c of CreateFolder p \<Rightarrow> True | _ \<Rightarrow> False)"
| "remoteOf MakeDirectoriesWritableTask c = (case c of Chmod p m \<Rightarrow> m = ''ugo+w'' | _ \<Rightarrow> False)"
| "remoteOf MakeFilesExecutableTask c = (case c of Exec command showLog \<Rightarrow> \<not> showLog | _ \<Rightarrow> False)"
| "remoteOf UpdateCurrentSymbolicLinkOnRemoteTask c =
     (case c of CreateSymboliclink t l \<Rightarrow> True | _ \<Rightarrow> False)"
| "remoteOf OnAfterDeployTask c = False"
| "remoteOf OnAfterDeployExecuteTask c = (case c of Exec command showLog \<Rightarrow> showLog | _ \<Rightarrow> False)"
| "remoteOf RemoteCleanupTask c = (case c of RemoveOldFolders f n \<Rightarrow> True | _ \<Rightarrow> False)"
| "remoteOf DeleteLocalArchiveTask c = False"
| "remoteOf CloseConnectionTask c = (c = Close)"
| "remoteOf RemoveReleaseTask c = (case c of Exec command showLog \<Rightarrow> \<not> showLog | _ \<Rightarrow> False)"

fun mayEmit :: "task \<Rightarrow> event \<Rightarrow> bool" where
  "mayEmit t (Remote c) = remoteOf t c"
| "mayEmit t (Logger l) = True"
| "mayEmit t (Console c) = True"
| "mayEmit t (Compress a b c d) = (t = CompressReleaseTask)"
| "mayEmit t (Hook h) =
     (t = OnBeforeDeployTask \<and> h = OnBeforeDeploy \<or> t = OnBeforeLinkTask \<and> h = OnBeforeLink
      \<or> t = OnAfterDeployTask \<and> h = OnAfterDeploy)"
| "mayEmit t (Unlink a) = (t = DeleteLocalArchiveTask)"
| "mayEmit t (Completion arg) = False"

text \<open>
  The arguments with which the caller's completion callback was invoked, and whether a
  series ended (its final callback ran).
\<close>

fun completions :: "event list \<Rightarrow> string option list" where
  "completions [] = []"
| "completions (Completion arg # es) = arg # completions es"
| "completions (x # es) = completions es"

fun ended :: "outcome \<Rightarrow> bool" where
  "ended Next = True"
| "ended (Fail err) = True"
| "ended r = False"

text \<open>Kinds of events, for the frame lemmas.\<close>

definition noCompletion :: "event \<Rightarrow> bool" where
  "noCompletion x = (case x of Completion arg \<Rightarrow> False | _ \<Rightarrow> True)"

definition noPrune :: "event \<Rightarrow> bool" where
  "noPrune x = (case x of Remote (RemoveOldFolders f n) \<Rightarrow> False | _ \<Rightarrow> True)"

text \<open>
  The events of the archive transfer (the archiver at work, the upload of the archive)
  and of the transfer by synchronization.
\<close>

definition archiveTransfer :: "event \<Rightarrow> bool" where
  "archiveTransfer x =
     (case x of
        Remote c \<Rightarrow> (case c of Upload a p \<Rightarrow> True | _ \<Rightarrow> False)
      | Compress a b c d \<Rightarrow> True
      | _ \<Rightarrow> False)"

definition synchronizeTransfer :: "event \<Rightarrow> bool" where
  "synchronizeTransfer x =
     (case x of
        Remote c \<Rightarrow> (case c of Synchronize a b d \<Rightarrow> True | _ \<Rightarrow> False)
      | _ \<Rightarrow> False)"

text \<open>
  The transport calls that the shared-symlink stage is expected to make for one property
  of \<^verbatim>\<open>share\<close>: the creation of the link and then, when the descriptor has a mode that is
  not the empty string, the change of the link's mode; none when the helper throws.
\<close>

definition linkCalls :: "env \<Rightarrow> release \<Rightarrow> options \<Rightarrow> string \<times> share_value \<Rightarrow> remote_call list" where
  "linkCalls e rel opts item =
     (case upwardPath e (snd item) of
        None \<Rightarrow> []
      | Some up \<Rightarrow>
          CreateSymboliclink (linkTarget up opts (fst item)) (linkPath rel (snd item))
          # (case linkMode (snd item) of
               None \<Rightarrow> []
             | Some m \<Rightarrow> if m = [] then [] else [Chmod (linkPath rel (snd item)) m]))"

text \<open>
  The transport's answer to the creation of the link for one property of \<^verbatim>\<open>share\<close> (no
  answer when the helper throws, as the call is then not made).
\<close>

definition linkReply :: "env \<Rightarrow> release \<Rightarrow> string \<times> share_value \<Rightarrow> state \<Rightarrow> reply" where
  "linkReply e rel item s =
     (case upwardPath e (snd item) of
        None \<Rightarrow> NoCallback
      | Some up \<Rightarrow>
          remoteReply e
            (trace s @ [Logger (Log ('' - '' @ shownName (snd item) @ '' ==> '' @ fst item))])
            (CreateSymboliclink (linkTarget up (options s) (fst item)) (linkPath rel (snd item))))"

text \<open>
  The caller's code keeps an aspect \<open>f\<close> of the options (a field, or with the identity all
  of them) when no hook and no command-list function changes it.
\<close>

definition callersKeep :: "(options \<Rightarrow> 'a) \<Rightarrow> env \<Rightarrow> bool" where
  "callersKeep f e =
     ((\<forall>tr h opts. f (hookOptions e tr h opts) = f opts) \<and>
      (\<forall>tr k opts. f (snd (commandsResult e tr k opts)) = f opts))"

text \<open>The tasks that call the caller's code: the three hooks and the three command lists.\<close>

definition callerTasks :: "task list" where
  "callerTasks =
     [OnBeforeDeployTask, OnBeforeDeployExecuteTask, OnBeforeLinkTask, OnBeforeLinkExecuteTask,
      OnAfterDeployTask, OnAfterDeployExecuteTask]"

text \<open>The number of \<^verbatim>\<open>..\<close> segments of a path.\<close>

definition dotdots :: "string \<Rightarrow> nat" where
  "dotdots p = count_list (splitOn CHR ''/'' p) ''..''"

text \<open>
  A deployment to run the definitions on: a transport on which every call succeeds,
  hooks that leave the options alone, a helper that returns one \<^verbatim>\<open>..\<close> for each segment
  of a name, and a platform whose \<^verbatim>\<open>fs.unlink\<close> insists on a callback (the example options
  do not ask for the local archive to be deleted).
\<close>

definition exampleEnv :: env where
  "exampleEnv =
     \<lparr>remoteReply = (\<lambda>tr c. Success),
      remoteHandlers = (\<lambda>tr c. []),
      connectReply = (\<lambda>tr. Connected),
      compressReply = (\<lambda>tr. Compressed ''1 MB''),
      hookReply = (\<lambda>tr h. Success),
      hookOptions = (\<lambda>tr h opts. opts),
      commandsResult = (\<lambda>tr k opts. (Some [''uptime''], opts)),
      getReversePath = (\<lambda>p. joinWith ''/'' (replicate (length (splitOn CHR ''/'' p)) ''..'')),
      reversePathOfObject = None,
      stringEqualsZero = (\<lambda>v. v = ''0''),
      unlinkNeedsCallback = True\<rparr>"

definition exampleOptions :: options where
  "exampleOptions =
     \<lparr>host = ''example.org'',
      mode = ''archive'',
      archiveType = ''tar'',
      archiveName = ''release.tar.gz'',
      localPath = ''www'',
      exclude = [],
      deployPath = ''/srv/app'',
      releasesFolder = ''releases'',
      sharedFolder = ''shared'',
      synchronizedFolder = ''synchronized'',
      currentReleaseLink = ''www'',
      share = Some [(''x'', Name ''logs''),
                    (''img'', Descriptor (Some ''app/images'') (Some ''ugo+w''))],
      create = Some [''tmp''],
      makeWritable = Some [''tmp''],
      makeExecutable = Some [''run.sh''],
      releasesToKeep = 3,
      deleteLocalArchiveAfterDeployment = False,
      onBeforeDeployExecute = MwAbsent,
      onBeforeLinkExecute = MwStatic [''ls''],
      onAfterDeployExecute = MwDynamic 0\<rparr>"

definition exampleRelease :: release where
  "exampleRelease = \<lparr>tag = ''t4'', name = ''t4'', path = ''/srv/app/releases/t4''\<rparr>"

definition exampleState :: state where
  "exampleState = \<lparr>trace = [], options = exampleOptions\<rparr>"

text \<open>The same deployment with hooks that signal an error.\<close>

definition failingHookEnv :: env where
  "failingHookEnv = exampleEnv\<lparr>hookReply := (\<lambda>tr h. Failure ''hook failed'')\<rparr>"

section \<open>Properties\<close>

subsection \<open>Traces\<close>

lemma emits_nil [simp]: "emits [] s = s"
  by (simp add: emits_def)

lemma emits_emits [simp]: "emits es (emits ds s) = emits (ds @ es) s"
  by (simp add: emits_def)

lemma trace_emits [simp]: "trace (emits es s) = trace s @ es"
  by (simp add: emits_def)

lemma options_emits [simp]: "options (emits es s) = options s"
  by (simp add: emits_def)

lemma emits_eq [simp]: "(emits xs s = emits ys s) = (xs = ys)"
proof
  assume "emits xs s = emits ys s"
  then have "trace (emits xs s) = trace (emits ys s)" by simp
  then show "xs = ys" by simp
qed simp

lemma emits_eq_self [simp]: "(s = emits ys s) = (ys = [])" "(emits ys s = s) = (ys = [])"
  using emits_eq [of "[]" s ys] emits_eq [of ys s "[]"] by auto

lemma news_emits [simp]: "news s (emits es s) = es"
  by (simp add: news_def)

lemma remoteCalls_append [simp]: "remoteCalls (xs @ ys) = remoteCalls xs @ remoteCalls ys"
  by (induction xs rule: remoteCalls.induct) simp_all

lemma fst_called: "fst (called es (r, s)) = (if r = NoCallback then s else emits es s)"
  by (cases r) simp_all

lemma fst_passed: "fst (passed (r, s)) = s"
  by (cases r) simp_all

lemma remoteCalls_handlers [simp]: "remoteCalls (concat (map (handlerEvents opts) hs)) = []"
proof (induction hs)
  case Nil
  show ?case by simp
next
  case (Cons h hs)
  then show ?case by (cases h) simp_all
qed

lemma emits_options_update [simp]:
  "(emits es s)\<lparr>options := opts\<rparr> = emits es (s\<lparr>options := opts\<rparr>)"
  by (simp add: emits_def)


subsection \<open>What each task can add to the trace\<close>

lemma addsI: "(\<And>s. \<exists>es. fst (f s) = emits es s \<and> list_all P es) \<Longrightarrow> adds P f"
  by (simp add: adds_def)

lemma addsD: "adds P f \<Longrightarrow> \<exists>es. fst (f s) = emits es s \<and> list_all P es"
  by (simp add: adds_def)

lemma adds_skip: "adds P (\<lambda>s. (s, r))"
  by (rule addsI) (rule exI [of _ "[]"], simp)

lemma adds_eachSeries:
  assumes "\<And>x. adds P (iteratee x)"
  shows "adds P (eachSeries iteratee xs)"
proof (rule addsI)
  fix s
  show "\<exists>es. fst (eachSeries iteratee xs s) = emits es s \<and> list_all P es"
  proof (induction xs arbitrary: s)
    case Nil
    show ?case by (intro exI [of _ "[]"]) simp
  next
    case (Cons x xs)
    obtain es where es: "fst (iteratee x s) = emits es s" "list_all P es"
      using addsD [OF assms] by blast
    obtain s1 r where it: "iteratee x s = (s1, r)" by (cases "iteratee x s")
    show ?case
    proof (cases "r = Next")
      case True
      obtain ds where ds: "fst (eachSeries iteratee xs s1) = emits ds s1" "list_all P ds"
        using Cons.IH by blast
      show ?thesis using True it es ds by (intro exI [of _ "es @ ds"]) simp
    next
      case False
      then show ?thesis using it es by (intro exI [of _ es]) (cases r; simp)
    qed
  qed
qed

lemma adds_okDone:
  assumes "adds P f" and "P (Logger (Ok ''Done''))"
  shows "adds P (\<lambda>s. okDone (f s))"
proof (rule addsI)
  fix s
  obtain es where es: "fst (f s) = emits es s" "list_all P es"
    using addsD [OF assms(1)] by blast
  obtain s1 r where it: "f s = (s1, r)" by (cases "f s")
  show "\<exists>xs. fst (okDone (f s)) = emits xs s \<and> list_all P xs"
  proof (cases "r = Next \<or> (\<exists>err. r = Fail err)")
    case True
    then show ?thesis using it es assms(2)
      by (intro exI [of _ "es @ [Logger (Ok ''Done'')]"]) auto
  next
    case False
    then show ?thesis using it es by (intro exI [of _ es]) (cases r; simp)
  qed
qed

lemma quiet_handlers:
  "quiet P \<Longrightarrow> list_all P (concat (map (handlerEvents opts) hs))"
proof (induction hs)
  case Nil
  show ?case by simp
next
  case (Cons h hs)
  then show ?case by (cases h) (simp_all add: quiet_def)
qed

lemma adds_emitted:
  assumes "adds P f" and "list_all P es"
  shows "adds P (\<lambda>s. f (emits es s))"
proof (rule addsI)
  fix s
  obtain ds where "fst (f (emits es s)) = emits ds (emits es s)" "list_all P ds"
    using addsD [OF assms(1)] by blast
  then show "\<exists>xs. fst (f (emits es s)) = emits xs s \<and> list_all P xs"
    using assms(2) by (intro exI [of _ "es @ ds"]) simp
qed

lemma adds_passed:
  assumes "quiet P" and "P (Remote c)"
  shows "adds P (\<lambda>s. passed (remoteCall e c s))"
proof (rule addsI)
  fix s :: state
  let ?hs = "concat (map (handlerEvents (options s)) (remoteHandlers e (trace s) c))"
  have "fst (passed (remoteCall e c s)) = emits (Remote c # ?hs) s"
    by (cases "remoteReply e (trace s) c") (simp_all add: remoteCall_def)
  then show "\<exists>es. fst (passed (remoteCall e c s)) = emits es s \<and> list_all P es"
    using assms quiet_handlers [OF assms(1)] by (intro exI [of _ "Remote c # ?hs"]) simp
qed

lemma adds_called:
  assumes "quiet P" and "P (Remote c)" and "list_all P es"
  shows "adds P (\<lambda>s. called es (remoteCall e c s))"
proof (rule addsI)
  fix s :: state
  let ?hs = "concat (map (handlerEvents (options s)) (remoteHandlers e (trace s) c))"
  have "fst (called es (remoteCall e c s)) = emits (Remote c # ?hs) s
      \<or> fst (called es (remoteCall e c s)) = emits ((Remote c # ?hs) @ es) s"
    by (cases "remoteReply e (trace s) c") (simp_all add: remoteCall_def)
  then show "\<exists>xs. fst (called es (remoteCall e c s)) = emits xs s \<and> list_all P xs"
    using assms quiet_handlers [OF assms(1)] 
    by (elim disjE) (intro exI [of _ "Remote c # ?hs"], simp, intro exI [of _ "(Remote c # ?hs) @ es"], simp)
qed

lemma quiet_mayEmit [simp]: "quiet (mayEmit t)"
  by (simp add: quiet_def)


lemma adds_executeCommands:
  assumes "quiet P" and "\<And>command. P (Remote (Exec command True))"
  shows "adds P (executeCommands e commands)"
proof -
  have loop: "adds P (\<lambda>s. okDone (eachSeries (\<lambda>command s'.
                     passed (remoteCall e (Exec command True)
                       (emits [Logger (Subhead (''Execute on remote : '' @ command))] s'))) l s))" for l
    using assms
    by (intro adds_okDone adds_eachSeries adds_emitted [where f = "\<lambda>s. passed (remoteCall e _ s)"] adds_passed)
       (simp_all add: quiet_def)
  show ?thesis
  proof (rule addsI)
    fix s
    show "\<exists>es. fst (executeCommands e commands s) = emits es s \<and> list_all P es"
      using addsD [OF loop, of _ s] addsD [OF adds_skip [of P Next], of s]
      by (auto simp: executeCommands_def split: option.splits)
  qed
qed


lemma handlers_mayEmit [simp]: "list_all (mayEmit t) (concat (map (handlerEvents opts) hs))"
  by (rule quiet_handlers) simp

lemma adds_connect: "adds (mayEmit ConnectToRemoteTask) (connectToRemoteTask e rel)"
  by (rule addsI)
     (simp add: connectToRemoteTask_def remoteCall_def fatal_def Let_def
           split: connect_reply.splits option.splits)

lemma adds_compress: "adds (mayEmit CompressReleaseTask) (compressReleaseTask e rel)"
  by (rule addsI) (simp add: compressReleaseTask_def Let_def split: compress_reply.splits)

lemma adds_createReleaseFolder:
  "adds (mayEmit CreateReleaseFolderOnRemoteTask) (createReleaseFolderOnRemoteTask e rel)"
  unfolding createReleaseFolderOnRemoteTask_def
  by (intro adds_emitted [where f = "\<lambda>s. called _ (remoteCall e _ s)"] adds_called) simp_all

lemma adds_uploadArchive: "adds (mayEmit UploadArchiveTask) (uploadArchiveTask e rel)"
  by (rule addsI)
     (simp add: uploadArchiveTask_def remoteCall_def split: reply.splits)

lemma adds_uploadRelease: "adds (mayEmit UploadReleaseTask) (uploadReleaseTask e rel)"
  by (rule addsI)
     (simp add: uploadReleaseTask_def remoteCall_def fst_called)

lemma adds_decompress:
  "adds (mayEmit DecompressArchiveOnRemoteTask) (decompressArchiveOnRemoteTask e rel)"
  by (rule addsI)
     (simp add: decompressArchiveOnRemoteTask_def remoteCall_def fst_called fatal_def Let_def)

lemma adds_updateCurrent:
  "adds (mayEmit UpdateCurrentSymbolicLinkOnRemoteTask) (updateCurrentSymbolicLinkOnRemoteTask e rel)"
  by (rule addsI)
     (simp add: updateCurrentSymbolicLinkOnRemoteTask_def remoteCall_def fst_called Let_def)

lemma adds_deleteLocalArchive:
  "adds (mayEmit DeleteLocalArchiveTask) (deleteLocalArchiveTask e rel)"
  by (rule addsI) (simp add: deleteLocalArchiveTask_def)

lemma adds_close: "adds (mayEmit CloseConnectionTask) (closeConnectionTask e rel)"
  by (rule addsI) (simp add: closeConnectionTask_def remoteCall_def fst_passed)

lemma adds_removeRelease: "adds (mayEmit RemoveReleaseTask) (removeReleaseTask e rel)"
  by (rule addsI) (simp add: removeReleaseTask_def remoteCall_def fst_called)

lemma adds_shareItem:
  "adds (mayEmit UpdateSharedSymbolicLinkOnRemoteTask) (shareItem e rel item)"
  by (rule addsI)
     (simp add: shareItem_def remoteCall_def fst_called Let_def
           split: option.splits reply.splits)

lemma adds_updateShared:
  "adds (mayEmit UpdateSharedSymbolicLinkOnRemoteTask) (updateSharedSymbolicLinkOnRemoteTask e rel)"
proof -
  let ?P = "mayEmit UpdateSharedSymbolicLinkOnRemoteTask"
  have loop: "adds ?P (\<lambda>s. okDone (eachSeries (shareItem e rel) sh
                 (emits [Logger (Subhead ''Update shared symlink on remote'')] s)))" for sh
    by (intro adds_emitted [where f = "\<lambda>s. okDone (eachSeries _ _ s)"] adds_okDone
          adds_eachSeries adds_shareItem) simp_all
  show ?thesis
  proof (rule addsI)
    fix s
    show "\<exists>es. fst (updateSharedSymbolicLinkOnRemoteTask e rel s) = emits es s \<and> list_all ?P es"
      using addsD [OF loop, of _ s]
      by (auto simp: updateSharedSymbolicLinkOnRemoteTask_def split: option.splits)
  qed
qed

lemma adds_createFolder: "adds (mayEmit CreateFolderTask) (createFolderTask e rel)"
proof -
  let ?P = "mayEmit CreateFolderTask"
  have loop: "adds ?P (\<lambda>s. okDone (eachSeries
                 (\<lambda>currentFolderToCreate s'.
                    passed (remoteCall e (CreateFolder (path rel @ ''/'' @ currentFolderToCreate))
                      (emits [Logger (Log ('' - '' @ currentFolderToCreate))] s')))
                 l (emits [Logger (Subhead ''Create folders on remote'')] s)))" for l
    by (intro adds_emitted [where f = "\<lambda>s. okDone (eachSeries _ _ s)"] adds_okDone
          adds_eachSeries adds_emitted [where f = "\<lambda>s. passed (remoteCall e _ s)"] adds_passed)
       simp_all
  show ?thesis
  proof (rule addsI)
    fix s
    show "\<exists>es. fst (createFolderTask e rel s) = emits es s \<and> list_all ?P es"
      using addsD [OF loop, of _ s]
      by (auto simp: createFolderTask_def split: option.splits)
  qed
qed

lemma adds_makeWritable:
  "adds (mayEmit MakeDirectoriesWritableTask) (makeDirectoriesWritableTask e rel)"
proof -
  let ?P = "mayEmit MakeDirectoriesWritableTask"
  have loop: "adds ?P (\<lambda>s. okDone (eachSeries
                 (\<lambda>currentFolderToMakeWritable s'.
                    passed (remoteCall e
                      (Chmod (path rel @ ''/'' @ currentFolderToMakeWritable) ''ugo+w'')
                      (emits [Logger (Log ('' - '' @ currentFolderToMakeWritable))] s')))
                 l (emits [Logger (Subhead ''Make folders writable on remote'')] s)))" for l
    by (intro adds_emitted [where f = "\<lambda>s. okDone (eachSeries _ _ s)"] adds_okDone
          adds_eachSeries adds_emitted [where f = "\<lambda>s. passed (remoteCall e _ s)"] adds_passed)
       simp_all
  show ?thesis
  proof (rule addsI)
    fix s
    show "\<exists>es. fst (makeDirectoriesWritableTask e rel s) = emits es s \<and> list_all ?P es"
      using addsD [OF loop, of _ s]
      by (auto simp: makeDirectoriesWritableTask_def split: option.splits)
  qed
qed

lemma adds_makeExecutable:
  "adds (mayEmit MakeFilesExecutableTask) (makeFilesExecutableTask e rel)"
proof -
  let ?P = "mayEmit MakeFilesExecutableTask"
  have loop: "adds ?P (\<lambda>s. okDone (eachSeries
                 (\<lambda>currentFileToMakeExecutable s'.
                    passed (remoteCall e
                      (Exec (''chmod ugo+x '' @ path rel @ ''/'' @ currentFileToMakeExecutable) False)
                      (emits [Logger (Log ('' - '' @ currentFileToMakeExecutable))] s')))
                 l (emits [Logger (Subhead ''Make files executables on remote'')] s)))" for l
    by (intro adds_emitted [where f = "\<lambda>s. okDone (eachSeries _ _ s)"] adds_okDone
          adds_eachSeries adds_emitted [where f = "\<lambda>s. passed (remoteCall e _ s)"] adds_passed)
       simp_all
  show ?thesis
  proof (rule addsI)
    fix s
    show "\<exists>es. fst (makeFilesExecutableTask e rel s) = emits es s \<and> list_all ?P es"
      using addsD [OF loop, of _ s]
      by (auto simp: makeFilesExecutableTask_def split: option.splits)
  qed
qed


lemma adds_task:
  "t \<notin> set callerTasks \<Longrightarrow> t \<noteq> RemoteCleanupTask \<Longrightarrow> adds (mayEmit t) (runTask e rel t)"
  by (cases t)
     (simp_all add: callerTasks_def adds_connect adds_compress adds_createReleaseFolder
      adds_uploadArchive adds_uploadRelease adds_decompress adds_updateCurrent
      adds_deleteLocalArchive adds_close adds_removeRelease adds_updateShared adds_createFolder
      adds_makeWritable adds_makeExecutable)

subsection \<open>The tasks that call the caller's code\<close>

lemma trace_callHook: "trace (fst (callHook e h s)) = trace s @ [Hook h]"
  by (simp add: callHook_def fst_passed)

lemma options_callHook: "options (fst (callHook e h s)) = hookOptions e (trace s) h (options s)"
  by (simp add: callHook_def fst_passed)

lemma options_middleware:
  "options (fst (middlewareCallbackExecute e mw s))
     = (case mw of
          MwDynamic k \<Rightarrow> snd (commandsResult e (trace s) k (options s))
        | _ \<Rightarrow> options s)"
proof -
  have "options (fst (executeCommands e commands s1)) = options s1" for commands s1
    using addsD [OF adds_executeCommands [of "\<lambda>x. True" e commands], of s1]
    by (auto simp: quiet_def)
  then show ?thesis
    by (simp add: middlewareCallbackExecute_def split: middleware.splits)
qed

lemma trace_middleware:
  assumes "quiet P" and "\<And>command. P (Remote (Exec command True))"
  shows "\<exists>es. trace (fst (middlewareCallbackExecute e mw s)) = trace s @ es \<and> list_all P es"
proof -
  have run: "\<exists>es. trace (fst (executeCommands e commands s1)) = trace s1 @ es \<and> list_all P es"
    for commands s1
    using addsD [OF adds_executeCommands [OF assms, of e commands], of s1]
    by (metis trace_emits)
  show ?thesis
  proof (cases mw)
    case MwAbsent
    then show ?thesis by (intro exI [of _ "[]"]) (simp add: middlewareCallbackExecute_def)
  next
    case (MwStatic l)
    then show ?thesis using run [of "Some l" s] by (simp add: middlewareCallbackExecute_def)
  next
    case (MwDynamic k)
    then show ?thesis
      using run [of "fst (commandsResult e (trace s) k (options s))"
                    "s\<lparr>options := snd (commandsResult e (trace s) k (options s))\<rparr>"]
      by (simp add: middlewareCallbackExecute_def)
  qed
qed

lemma appends_callerTask:
  "t \<in> set callerTasks \<Longrightarrow> appends (mayEmit t) (runTask e rel t)"
  unfolding appends_def
proof
  fix s
  assume t: "t \<in> set callerTasks"
  have hook: "mayEmit t (Hook h) \<Longrightarrow>
      \<exists>es. trace (fst (callHook e h s)) = trace s @ es \<and> list_all (mayEmit t) es" for h
    by (intro exI [of _ "[Hook h]"]) (simp add: trace_callHook)
  have mw: "(\<And>command. mayEmit t (Remote (Exec command True))) \<Longrightarrow>
      \<exists>es. trace (fst (middlewareCallbackExecute e m s)) = trace s @ es \<and> list_all (mayEmit t) es"
    for m
    by (rule trace_middleware) simp_all
  from t consider "t = OnBeforeDeployTask" | "t = OnBeforeDeployExecuteTask"
    | "t = OnBeforeLinkTask" | "t = OnBeforeLinkExecuteTask"
    | "t = OnAfterDeployTask" | "t = OnAfterDeployExecuteTask"
    by (auto simp: callerTasks_def)
  then show "\<exists>es. trace (fst (runTask e rel t s)) = trace s @ es \<and> list_all (mayEmit t) es"
  proof cases
    case 1
    then show ?thesis using hook [of OnBeforeDeploy] by (simp add: onBeforeDeployTask_def)
  next
    case 2
    then show ?thesis using mw [of "onBeforeDeployExecute (options s)"]
      by (simp add: onBeforeDeployExecuteTask_def)
  next
    case 3
    then show ?thesis using hook [of OnBeforeLink] by (simp add: onBeforeLinkTask_def)
  next
    case 4
    then show ?thesis using mw [of "onBeforeLinkExecute (options s)"]
      by (simp add: onBeforeLinkExecuteTask_def)
  next
    case 5
    then show ?thesis using hook [of OnAfterDeploy] by (simp add: onAfterDeployTask_def)
  next
    case 6
    then show ?thesis using mw [of "onAfterDeployExecute (options s)"]
      by (simp add: onAfterDeployExecuteTask_def)
  qed
qed

lemma keep_callerTask:
  assumes "callersKeep f e" and t: "t \<in> set callerTasks"
  shows "f (options (fst (runTask e rel t s))) = f (options s)"
proof -
  have hook: "f (options (fst (callHook e h s))) = f (options s)" for h
    using assms(1) by (simp add: options_callHook callersKeep_def)
  have mw: "f (options (fst (middlewareCallbackExecute e m s))) = f (options s)" for m
    using assms(1) by (simp add: options_middleware callersKeep_def split: middleware.splits)
  from t consider "t = OnBeforeDeployTask" | "t = OnBeforeDeployExecuteTask"
    | "t = OnBeforeLinkTask" | "t = OnBeforeLinkExecuteTask"
    | "t = OnAfterDeployTask" | "t = OnAfterDeployExecuteTask"
    by (auto simp: callerTasks_def)
  then show ?thesis
    by cases
       (simp_all add: hook mw onBeforeDeployTask_def onBeforeDeployExecuteTask_def
          onBeforeLinkTask_def onBeforeLinkExecuteTask_def onAfterDeployTask_def
          onAfterDeployExecuteTask_def)
qed

lemma options_ownTask:
  "t \<notin> set callerTasks \<Longrightarrow> t \<noteq> RemoteCleanupTask \<Longrightarrow>
     options (fst (runTask e rel t s)) = options s"
  using addsD [OF adds_task, of t e rel s] by auto

lemma keep_task:
  assumes "callersKeep f e" and "t \<noteq> RemoteCleanupTask"
  shows "f (options (fst (runTask e rel t s))) = f (options s)"
proof (cases "t \<in> set callerTasks")
  case True
  then show ?thesis by (rule keep_callerTask [OF assms(1)])
next
  case False
  then show ?thesis using options_ownTask [OF False assms(2)] by simp
qed

subsection \<open>The series\<close>

lemma adds_appends: "adds P f \<Longrightarrow> appends P f"
  unfolding adds_def appends_def
  by (metis trace_emits)

lemma appends_mono: "appends P f \<Longrightarrow> (\<And>x. P x \<Longrightarrow> Q x) \<Longrightarrow> appends Q f"
  unfolding appends_def list_all_iff by blast

lemma cleanup_state:
  "\<exists>es. fst (remoteCleanupTask e rel s)
          = emits es (s\<lparr>options := (options s)\<lparr>releasesToKeep := max (releasesToKeep (options s)) 1\<rparr>\<rparr>)
        \<and> list_all (mayEmit RemoteCleanupTask) es"
proof (cases "releasesToKeep (options s) < 1")
  case True
  then show ?thesis
    by (simp add: remoteCleanupTask_def remoteCall_def fst_called Let_def max_def)
next
  case False
  then have "s\<lparr>options := (options s)\<lparr>releasesToKeep := max (releasesToKeep (options s)) 1\<rparr>\<rparr> = s"
    by (simp add: max_def)
  with False show ?thesis
    by (simp add: remoteCleanupTask_def remoteCall_def fst_called Let_def)
qed

lemma appends_cleanup: "appends (mayEmit RemoteCleanupTask) (remoteCleanupTask e rel)"
  unfolding appends_def
proof
  fix s
  obtain es where "fst (remoteCleanupTask e rel s)
          = emits es (s\<lparr>options := (options s)\<lparr>releasesToKeep := max (releasesToKeep (options s)) 1\<rparr>\<rparr>)"
      "list_all (mayEmit RemoteCleanupTask) es"
    using cleanup_state by blast
  then show "\<exists>es. trace (fst (remoteCleanupTask e rel s)) = trace s @ es \<and> list_all (mayEmit RemoteCleanupTask) es"
    by (intro exI [of _ es]) simp
qed


lemma appends_task: "appends (mayEmit t) (runTask e rel t)"
proof (cases "t = RemoteCleanupTask")
  case True
  then show ?thesis by (simp add: appends_cleanup)
next
  case False
  show ?thesis
  proof (cases "t \<in> set callerTasks")
    case True
    then show ?thesis by (rule appends_callerTask)
  next
    case notCaller: False
    show ?thesis by (rule adds_appends [OF adds_task [OF notCaller False]])
  qed
qed

lemma series_started:
  "series run ts s = (s', r, started) \<Longrightarrow>
     map fst started = take (length started) ts \<and>
     (\<forall>i. Suc i < length started \<longrightarrow> snd (started ! i) = Next) \<and>
     (r = Next \<longrightarrow> length started = length ts) \<and>
     (r \<noteq> Next \<longrightarrow> started \<noteq> [] \<and> snd (last started) = r)"
proof (induction ts arbitrary: s s' r started)
  case Nil
  then show ?case by simp
next
  case (Cons t ts)
  obtain s1 r1 where run: "run t s = (s1, r1)" by (cases "run t s")
  show ?case
  proof (cases "r1 = Next")
    case True
    obtain s2 r2 l2 where rest: "series run ts s1 = (s2, r2, l2)"
      by (cases "series run ts s1") auto
    from Cons.prems run True rest have eq: "r = r2" "started = (t, Next) # l2"
      by simp_all
    have ih1: "map fst l2 = take (length l2) ts"
      and ih2: "\<forall>i. Suc i < length l2 \<longrightarrow> snd (l2 ! i) = Next"
      and ih3: "r2 = Next \<longrightarrow> length l2 = length ts"
      and ih4: "r2 \<noteq> Next \<longrightarrow> l2 \<noteq> [] \<and> snd (last l2) = r2"
      using Cons.IH [OF rest] by blast+
    have a: "map fst started = take (length started) (t # ts)"
      using ih1 eq by simp
    have b: "\<forall>i. Suc i < length started \<longrightarrow> snd (started ! i) = Next"
    proof (intro allI impI)
      fix i assume "Suc i < length started"
      then show "snd (started ! i) = Next"
        using ih2 eq by (cases i) simp_all
    qed
    have c: "r = Next \<longrightarrow> length started = length (t # ts)"
      using ih3 eq by simp
    have d: "r \<noteq> Next \<longrightarrow> started \<noteq> [] \<and> snd (last started) = r"
      using ih4 eq by simp
    from a b c d show ?thesis by blast
  next
    case False
    with Cons.prems run have "r = r1 \<and> started = [(t, r1)]"
      by (cases r1) auto
    with False show ?thesis by simp
  qed
qed

lemma fst_series_Cons:
  "fst (series run (t # ts) s) =
     (if snd (run t s) = Next then fst (series run ts (fst (run t s))) else fst (run t s))"
proof -
  obtain s1 r1 where run: "run t s = (s1, r1)" by (cases "run t s")
  obtain s2 r2 l2 where rest: "series run ts s1 = (s2, r2, l2)"
    by (cases "series run ts s1") auto
  show ?thesis using run rest by (cases r1) simp_all
qed


lemma series_appends:
  assumes "\<And>t. t \<in> set ts \<Longrightarrow> appends P (run t)"
  shows "appends P (\<lambda>s. (fst (series run ts s), r0))"
  unfolding appends_def
proof
  fix s
  show "\<exists>es. trace (fst (fst (series run ts s), r0)) = trace s @ es \<and> list_all P es"
    using assms
  proof (induction ts arbitrary: s)
    case Nil
    show ?case by (intro exI [of _ "[]"]) simp
  next
    case (Cons t ts)
    obtain s1 r1 where run: "run t s = (s1, r1)" by (cases "run t s")
    obtain es where es: "trace s1 = trace s @ es" "list_all P es"
      using Cons.prems [of t] run unfolding appends_def by (simp, metis fst_conv)
    show ?case
    proof (cases "r1 = Next")
      case True
      obtain ds where ds: "trace (fst (series run ts s1)) = trace s1 @ ds" "list_all P ds"
        using Cons.IH [of s1] Cons.prems by auto
      show ?thesis using True run es ds
        by (intro exI [of _ "es @ ds"]) (simp add: fst_series_Cons del: series.simps)
    next
      case False
      then show ?thesis using run es by (intro exI [of _ es]) (simp add: fst_series_Cons del: series.simps)
    qed
  qed
qed

lemma series_append:
  "series run (xs @ ys) s =
     (case series run xs s of
        (s1, Next, l1) \<Rightarrow> (case series run ys s1 of (s2, r, l2) \<Rightarrow> (s2, r, l1 @ l2))
      | (s1, r, l1) \<Rightarrow> (s1, r, l1))"
proof (induction xs arbitrary: s)
  case Nil
  obtain s2 r2 l2 where "series run ys s = (s2, r2, l2)"
    by (cases "series run ys s") auto
  then show ?case by simp
next
  case (Cons x xs)
  obtain s1 r1 where run: "run x s = (s1, r1)" by (cases "run x s")
  show ?case
  proof (cases "r1 = Next")
    case True
    obtain s2 r2 l2 where xs: "series run xs s1 = (s2, r2, l2)"
      by (cases "series run xs s1") auto
    obtain s3 r3 l3 where ys: "series run ys s2 = (s3, r3, l3)"
      by (cases "series run ys s2") auto
    show ?thesis using True run xs ys Cons.IH [of s1]
      by (cases r2) simp_all
  next
    case False
    then show ?thesis using run by (cases r1) simp_all
  qed
qed


lemma series_keep:
  assumes "callersKeep f e" and "RemoteCleanupTask \<notin> set ts"
  shows "f (options (fst (series (runTask e rel) ts s))) = f (options s)"
  using assms(2)
proof (induction ts arbitrary: s)
  case Nil
  show ?case by simp
next
  case (Cons t ts)
  have step: "f (options (fst (runTask e rel t s))) = f (options s)"
    using keep_task [OF assms(1), of t rel s] Cons.prems by auto
  show ?case
  proof (cases "snd (runTask e rel t s) = Next")
    case True
    then show ?thesis
      using Cons.IH [of "fst (runTask e rel t s)"] Cons.prems step
      by (simp add: fst_series_Cons del: series.simps)
  next
    case False
    then show ?thesis using step by (simp add: fst_series_Cons del: series.simps)
  qed
qed

subsection \<open>Frames for the claims on whole runs\<close>

lemma split_after:
  assumes "xs @ ys = pre @ x # post" and "x \<notin> set xs"
  shows "\<exists>pre'. pre = xs @ pre'"
  using assms
proof (induction xs arbitrary: pre)
  case Nil
  then show ?case by simp
next
  case (Cons a xs)
  show ?case
  proof (cases pre)
    case Nil
    with Cons.prems show ?thesis by simp
  next
    case (Cons b pre1)
    with Cons.prems have "a = b" "xs @ ys = pre1 @ x # post" "x \<notin> set xs"
      by simp_all
    with Cons.IH [of pre1] Cons show ?thesis by auto
  qed
qed

lemma updateCurrent_state:
  "\<exists>hs. fst (updateCurrentSymbolicLinkOnRemoteTask e rel s)
      = emits (Logger (Subhead ''Update current release symlink on remote'')
               # Remote (CreateSymboliclink (releasesFolder (options s) @ ''/'' @ tag rel)
                    (posix_join [deployPath (options s), currentReleaseLink (options s)]))
               # hs) s
      \<and> list_all (mayEmit ConnectToRemoteTask) hs"
  by (simp add: updateCurrentSymbolicLinkOnRemoteTask_def remoteCall_def fst_called Let_def)

lemma noPrune_task: "t \<noteq> RemoteCleanupTask \<Longrightarrow> mayEmit t x \<Longrightarrow> noPrune x"
  by (cases x; cases t) (simp_all add: noPrune_def split: remote_call.splits)

lemma noPrune_set: "list_all noPrune es \<Longrightarrow> Remote (RemoveOldFolders f n) \<notin> set es"
  by (auto simp: list_all_iff noPrune_def)


lemma appends_noPrune: "t \<noteq> RemoteCleanupTask \<Longrightarrow> appends noPrune (runTask e rel t)"
  by (rule appends_mono [OF appends_task]) (auto intro: noPrune_task)

lemma swap_before_prune:
  assumes run: "series (runTask e rel) (A @ UpdateCurrentSymbolicLinkOnRemoteTask # B) s
                  = (s', r, started)"
    and A: "RemoteCleanupTask \<notin> set A"
    and cut: "news s s' = pre @ Remote (RemoveOldFolders f n) # post"
  shows "(UpdateCurrentSymbolicLinkOnRemoteTask, Next) \<in> set started \<and>
         (\<exists>opts'. Remote (CreateSymboliclink (releasesFolder opts' @ ''/'' @ tag rel)
                     (posix_join [deployPath opts', currentReleaseLink opts'])) \<in> set pre \<and>
                  (callersKeep (\<lambda>opts. opts) e \<longrightarrow> opts' = options s))"
proof -
  let ?U = UpdateCurrentSymbolicLinkOnRemoteTask
  obtain s1 r1 l1 where first: "series (runTask e rel) A s = (s1, r1, l1)"
    by (cases "series (runTask e rel) A s") auto
  let ?link = "Remote (CreateSymboliclink (releasesFolder (options s1) @ ''/'' @ tag rel)
              (posix_join [deployPath (options s1), currentReleaseLink (options s1)]))"
  have "appends noPrune (\<lambda>s. (fst (series (runTask e rel) A s), Next))"
    using A by (intro series_appends appends_noPrune) auto
  then have "\<exists>es. trace (fst (series (runTask e rel) A s)) = trace s @ es \<and> list_all noPrune es"
    unfolding appends_def by (metis fst_conv)
  then obtain esA where esA: "trace s1 = trace s @ esA" "list_all noPrune esA"
    using first by auto
  have kept: "callersKeep (\<lambda>opts. opts) e \<longrightarrow> options s1 = options s"
    using series_keep [of "\<lambda>opts. opts" e A rel s] A first by simp
  show ?thesis
  proof (cases "r1 = Next")
    case False
    then have "s' = s1" using run first by (cases r1) (simp_all add: series_append)
    then have "esA = pre @ Remote (RemoveOldFolders f n) # post"
      using cut esA by (simp add: news_def)
    then show ?thesis using noPrune_set [OF esA(2), of f n] by simp
  next
    case True
    obtain s2 r2 where swap: "updateCurrentSymbolicLinkOnRemoteTask e rel s1 = (s2, r2)"
      by (cases "updateCurrentSymbolicLinkOnRemoteTask e rel s1")
    obtain hs where hs: "s2 = emits (Logger (Subhead ''Update current release symlink on remote'')
             # ?link # hs) s1" "list_all (mayEmit ConnectToRemoteTask) hs"
      using updateCurrent_state [of e rel s1] swap by auto
    let ?esU = "Logger (Subhead ''Update current release symlink on remote'') # ?link # hs"
    have "list_all noPrune hs"
      using hs(2) by (auto simp: list_all_iff intro: noPrune_task)
    then have quietU: "list_all noPrune (esA @ ?esU)"
      using esA(2) by (simp add: noPrune_def)
    have tr2: "trace s2 = trace s @ esA @ ?esU"
      using hs(1) esA(1) by simp
    show ?thesis
    proof (cases "r2 = Next")
      case False
      then have "s' = s2" using run first True swap
        by (cases r2) (simp_all add: series_append)
      then have "esA @ ?esU = pre @ Remote (RemoveOldFolders f n) # post"
        using cut tr2 by (simp add: news_def)
      then have "Remote (RemoveOldFolders f n) \<in> set (esA @ ?esU)"
        by (metis in_set_conv_decomp)
      then show ?thesis using noPrune_set [OF quietU, of f n] by blast
    next
      case r2: True
      obtain s3 r3 l3 where rest: "series (runTask e rel) B s2 = (s3, r3, l3)"
        by (cases "series (runTask e rel) B s2") auto
      have res: "s' = s3" "started = l1 @ (?U, Next) # l3"
        using run first True swap r2 rest by (simp_all add: series_append)
      have "appends (\<lambda>x. True) (\<lambda>s. (fst (series (runTask e rel) B s), Next))"
        by (rule series_appends) (rule appends_mono [OF appends_task], simp)
      then have "\<exists>es. trace (fst (series (runTask e rel) B s2)) = trace s2 @ es"
        unfolding appends_def by (metis fst_conv)
      then obtain esB where esB: "trace s3 = trace s2 @ esB"
        using rest by auto
      have "(esA @ ?esU) @ esB = pre @ Remote (RemoveOldFolders f n) # post"
        using cut res esB tr2 by (simp add: news_def)
      from split_after [OF this] noPrune_set [OF quietU, of f n]
      obtain pre' where "pre = (esA @ ?esU) @ pre'" by blast
      then have "?link \<in> set pre" by simp
      with kept res show ?thesis by auto
    qed
  qed
qed

lemma completions_append [simp]: "completions (xs @ ys) = completions xs @ completions ys"
  by (induction xs rule: completions.induct) simp_all

lemma completions_none: "list_all noCompletion es \<Longrightarrow> completions es = []"
  by (induction es rule: completions.induct) (simp_all add: noCompletion_def)

lemma noCompletion_task: "mayEmit t x \<Longrightarrow> noCompletion x"
  by (cases x) (simp_all add: noCompletion_def)

lemma series_completions:
  "\<exists>es. trace (fst (series (runTask e rel) ts s)) = trace s @ es \<and> completions es = []"
proof -
  have "appends noCompletion (\<lambda>s. (fst (series (runTask e rel) ts s), Next))"
    by (rule series_appends) (rule appends_mono [OF appends_task], rule noCompletion_task)
  then show ?thesis
    unfolding appends_def using completions_none by (metis fst_conv)
qed

lemma final_completions:
  assumes "trace s1 = trace s @ es" and "completions es = []"
  shows "completions (news s (fst (final (orNoop cb) (s1, r, started))))
           = (if ended r \<and> cb = Caller then [None] else [])"
  using assms by (cases r; cases cb) (simp_all add: news_def)



lemma options_cleanup:
  "options (fst (remoteCleanupTask e rel s))
     = (options s)\<lparr>releasesToKeep := max (releasesToKeep (options s)) 1\<rparr>"
  using cleanup_state [of e rel s] by auto


lemma undefined_callback_throws:
  "final Absent (s, Next, started) = (s, Thrown ''TypeError: done is not a function'')"
  by simp


lemma exampleEnv_keeps: "callersKeep f exampleEnv"
  by (simp add: callersKeep_def exampleEnv_def)

subsection \<open>The order of the stages\<close>

text \<open>
  Claim C1. In every run of the deployment series, under every environment, the tasks
  started are an initial part of the fixed list of twenty, in its order; every task but
  the last one started has signalled completion, so a task starts only when the one
  before it has signalled completion; when the series ends without an error all twenty
  were started. In particular, wherever the trace of the run holds a call that removes
  old folders, the task that swaps the current symlink has signalled completion and its
  call that creates the current symlink stands earlier in the trace. The link and its
  target are computed from the options as they are when the swap starts: the options of
  the start when the caller's hooks and command-list functions have not assigned to them.
\<close>

theorem deploy_order:
  assumes run: "series (runTask e rel) deployTasks s = (s', r, started)"
  shows "map fst started = take (length started)
           [ConnectToRemoteTask, OnBeforeDeployTask, OnBeforeDeployExecuteTask,
            CompressReleaseTask, CreateReleaseFolderOnRemoteTask, UploadArchiveTask,
            UploadReleaseTask, DecompressArchiveOnRemoteTask, OnBeforeLinkTask,
            OnBeforeLinkExecuteTask, UpdateSharedSymbolicLinkOnRemoteTask, CreateFolderTask,
            MakeDirectoriesWritableTask, MakeFilesExecutableTask,
            UpdateCurrentSymbolicLinkOnRemoteTask, OnAfterDeployTask, OnAfterDeployExecuteTask,
            RemoteCleanupTask, DeleteLocalArchiveTask, CloseConnectionTask] \<and>
         (\<forall>i. Suc i < length started \<longrightarrow> snd (started ! i) = Next) \<and>
         (r = Next \<longrightarrow> length started = 20) \<and>
         (\<forall>pre f n post. news s s' = pre @ Remote (RemoveOldFolders f n) # post \<longrightarrow>
            (UpdateCurrentSymbolicLinkOnRemoteTask, Next) \<in> set started \<and>
            (\<exists>opts'. Remote (CreateSymboliclink (releasesFolder opts' @ ''/'' @ tag rel)
                        (posix_join [deployPath opts', currentReleaseLink opts'])) \<in> set pre \<and>
                     (callersKeep (\<lambda>opts. opts) e \<longrightarrow> opts' = options s)))"
proof -
  let ?A = "[ConnectToRemoteTask, OnBeforeDeployTask, OnBeforeDeployExecuteTask,
            CompressReleaseTask, CreateReleaseFolderOnRemoteTask, UploadArchiveTask,
            UploadReleaseTask, DecompressArchiveOnRemoteTask, OnBeforeLinkTask,
            OnBeforeLinkExecuteTask, UpdateSharedSymbolicLinkOnRemoteTask, CreateFolderTask,
            MakeDirectoriesWritableTask, MakeFilesExecutableTask]"
  let ?B = "[OnAfterDeployTask, OnAfterDeployExecuteTask,
            RemoteCleanupTask, DeleteLocalArchiveTask, CloseConnectionTask]"
  have split: "deployTasks = ?A @ UpdateCurrentSymbolicLinkOnRemoteTask # ?B"
    by (simp add: deployTasks_def)
  have A: "RemoteCleanupTask \<notin> set ?A"
    by simp
  have log: "map fst started = take (length started) deployTasks"
      "\<forall>i. Suc i < length started \<longrightarrow> snd (started ! i) = Next"
      "r = Next \<longrightarrow> length started = length deployTasks"
    using series_started [OF run] by blast+
  have len: "length deployTasks = 20"
    by (simp add: deployTasks_def)
  have order: "\<forall>pre f n post. news s s' = pre @ Remote (RemoveOldFolders f n) # post \<longrightarrow>
            (UpdateCurrentSymbolicLinkOnRemoteTask, Next) \<in> set started \<and>
            (\<exists>opts'. Remote (CreateSymboliclink (releasesFolder opts' @ ''/'' @ tag rel)
                        (posix_join [deployPath opts', currentReleaseLink opts'])) \<in> set pre \<and>
                     (callersKeep (\<lambda>opts. opts) e \<longrightarrow> opts' = options s))"
    using swap_before_prune [OF run [unfolded split] A] by blast
  have names: "map fst started = take (length started)
           [ConnectToRemoteTask, OnBeforeDeployTask, OnBeforeDeployExecuteTask,
            CompressReleaseTask, CreateReleaseFolderOnRemoteTask, UploadArchiveTask,
            UploadReleaseTask, DecompressArchiveOnRemoteTask, OnBeforeLinkTask,
            OnBeforeLinkExecuteTask, UpdateSharedSymbolicLinkOnRemoteTask, CreateFolderTask,
            MakeDirectoriesWritableTask, MakeFilesExecutableTask,
            UpdateCurrentSymbolicLinkOnRemoteTask, OnAfterDeployTask, OnAfterDeployExecuteTask,
            RemoteCleanupTask, DeleteLocalArchiveTask, CloseConnectionTask]"
    using log(1) unfolding deployTasks_def .
  from names log(2) log(3) len order show ?thesis by presburger
qed

theorem deploy_order_witness:
  "fst (snd (series (runTask exampleEnv exampleRelease) deployTasks exampleState)) = Next \<and>
   map fst (snd (snd (series (runTask exampleEnv exampleRelease) deployTasks exampleState)))
     = deployTasks \<and>
   snd (snd (snd (series (runTask exampleEnv exampleRelease) deployTasks exampleState)) ! 14) = Next \<and>
   (UpdateCurrentSymbolicLinkOnRemoteTask, Next)
     \<in> set (snd (snd (series (runTask exampleEnv exampleRelease) deployTasks exampleState))) \<and>
   callersKeep (\<lambda>opts. opts) exampleEnv \<and>
   Remote (CreateSymboliclink ''releases/t4'' ''/srv/app/www'')
     \<in> set (takeWhile (\<lambda>x. x \<noteq> Remote (RemoveOldFolders ''/srv/app/releases'' 3))
          (news exampleState
             (fst (series (runTask exampleEnv exampleRelease) deployTasks exampleState))))"
proof -
  define X where "X = series (runTask exampleEnv exampleRelease) deployTasks exampleState"
  define pre where "pre = takeWhile (\<lambda>x. x \<noteq> Remote (RemoveOldFolders ''/srv/app/releases'' 3))
          (news exampleState (fst X))"
  define post where "post = tl (dropWhile (\<lambda>x. x \<noteq> Remote (RemoveOldFolders ''/srv/app/releases'' 3))
          (news exampleState (fst X)))"
  have run: "series (runTask exampleEnv exampleRelease) deployTasks exampleState
               = (fst X, fst (snd X), snd (snd X))"
    by (simp add: X_def)
  have r: "fst (snd X) = Next"
    unfolding X_def by code_simp
  have cut: "news exampleState (fst X) = pre @ Remote (RemoveOldFolders ''/srv/app/releases'' 3) # post"
    unfolding pre_def post_def X_def by code_simp
  have opts: "releasesFolder (options exampleState) @ ''/'' @ tag exampleRelease = ''releases/t4''"
     "posix_join [deployPath (options exampleState), currentReleaseLink (options exampleState)]
        = ''/srv/app/www''"
    by code_simp+
  have keep: "callersKeep (\<lambda>opts. opts) exampleEnv"
    by (rule exampleEnv_keeps)
  have len: "length deployTasks = 20"
    by (simp add: deployTasks_def)
  note th = deploy_order [OF run]
  have names: "map fst (snd (snd X)) = take (length (snd (snd X))) deployTasks"
    using th unfolding deployTasks_def by blast
  have l20: "length (snd (snd X)) = 20"
    using th r by blast
  have "snd (snd (snd X) ! 14) = Next"
    using th l20 by simp
  moreover have "(UpdateCurrentSymbolicLinkOnRemoteTask, Next) \<in> set (snd (snd X)) \<and>
      Remote (CreateSymboliclink ''releases/t4'' ''/srv/app/www'') \<in> set pre"
    using th cut keep opts by metis
  ultimately show ?thesis
    using r names l20 len keep unfolding X_def [symmetric] pre_def [symmetric] by simp
qed

text \<open>
  Where \<^verbatim>\<open>fs.unlink\<close> insists on a callback, a deployment in archive mode that is asked to
  delete the local archive breaks off in its nineteenth task: the connection is not
  closed and the completion callback is not invoked.
\<close>

lemma unlink_without_callback_breaks_off:
  "fst (snd (series (runTask exampleEnv exampleRelease) deployTasks
      (exampleState\<lparr>options := exampleOptions\<lparr>deleteLocalArchiveAfterDeployment := True\<rparr>\<rparr>)))
     = Thrown ''TypeError'' \<and>
   length (snd (snd (series (runTask exampleEnv exampleRelease) deployTasks
      (exampleState\<lparr>options := exampleOptions\<lparr>deleteLocalArchiveAfterDeployment := True\<rparr>\<rparr>))))
     = 19 \<and>
   completions (trace (fst (deployRelease exampleEnv exampleRelease Caller
      (exampleState\<lparr>options := exampleOptions\<lparr>deleteLocalArchiveAfterDeployment := True\<rparr>\<rparr>))))
     = []"
  by code_simp

subsection \<open>Transfer stages and the mode\<close>

lemma series_invariant:
  assumes step: "\<And>t s. t \<in> set ts \<Longrightarrow> I (options s) \<Longrightarrow>
            (\<exists>es. trace (fst (run t s)) = trace s @ es \<and> list_all P es)
            \<and> I (options (fst (run t s)))"
    and "I (options s)"
  shows "\<exists>es. trace (fst (series run ts s)) = trace s @ es \<and> list_all P es"
  using assms
proof (induction ts arbitrary: s)
  case Nil
  show ?case by (intro exI [of _ "[]"]) simp
next
  case (Cons t ts)
  obtain es where es: "trace (fst (run t s)) = trace s @ es" "list_all P es"
      and inv: "I (options (fst (run t s)))"
    using Cons.prems(1) [of t s] Cons.prems(2) by auto
  show ?case
  proof (cases "snd (run t s) = Next")
    case True
    obtain ds where "trace (fst (series run ts (fst (run t s)))) = trace (fst (run t s)) @ ds"
        "list_all P ds"
      using Cons.IH [of "fst (run t s)"] Cons.prems(1) inv by auto
    then show ?thesis
      using True es by (intro exI [of _ "es @ ds"]) (simp add: fst_series_Cons del: series.simps)
  next
    case False
    then show ?thesis
      using es by (intro exI [of _ es]) (simp add: fst_series_Cons del: series.simps)
  qed
qed


lemma task_step:
  assumes "callersKeep mode e"
  shows "(\<exists>es. trace (fst (runTask e rel t s)) = trace s @ es \<and> list_all (mayEmit t) es)
   \<and> mode (options (fst (runTask e rel t s))) = mode (options s)"
proof -
  have "\<exists>es. trace (fst (runTask e rel t s)) = trace s @ es \<and> list_all (mayEmit t) es"
    using appends_task [of t e rel] unfolding appends_def by blast
  moreover have "mode (options (fst (runTask e rel t s))) = mode (options s)"
  proof (cases "t = RemoteCleanupTask")
    case True
    then show ?thesis by (simp add: options_cleanup)
  next
    case False
    then show ?thesis by (rule keep_task [OF assms])
  qed
  ultimately show ?thesis by blast
qed

lemma no_archiveTransfer:
  "t \<notin> {CompressReleaseTask, UploadArchiveTask} \<Longrightarrow> mayEmit t x \<Longrightarrow> \<not> archiveTransfer x"
  by (cases x; cases t) (simp_all add: archiveTransfer_def split: remote_call.splits)

lemma no_synchronizeTransfer:
  "t \<noteq> UploadReleaseTask \<Longrightarrow> mayEmit t x \<Longrightarrow> \<not> synchronizeTransfer x"
  by (cases x; cases t) (simp_all add: synchronizeTransfer_def split: remote_call.splits)


lemma synchronize_run:
  assumes keep: "callersKeep mode e" and "mode (options s) = ''synchronize''"
  shows "\<exists>es. trace (fst (series (runTask e rel) ts s)) = trace s @ es
           \<and> list_all (\<lambda>x. \<not> archiveTransfer x) es"
proof (rule series_invariant [where I = "\<lambda>opts. mode opts = ''synchronize''"])
  fix t and s :: state
  assume sync: "mode (options s) = ''synchronize''"
  show "(\<exists>es. trace (fst (runTask e rel t s)) = trace s @ es \<and> list_all (\<lambda>x. \<not> archiveTransfer x) es)
      \<and> mode (options (fst (runTask e rel t s))) = ''synchronize''"
  proof (cases "t \<in> {CompressReleaseTask, UploadArchiveTask}")
    case True
    then have "runTask e rel t s = (s, Next)"
      using sync by (auto simp: compressReleaseTask_def uploadArchiveTask_def)
    then show ?thesis using sync by simp
  next
    case False
    obtain es where "trace (fst (runTask e rel t s)) = trace s @ es" "list_all (mayEmit t) es"
        "mode (options (fst (runTask e rel t s))) = mode (options s)"
      using task_step [OF keep, of rel t s] by blast
    then show ?thesis
      using sync no_archiveTransfer [OF False] by (auto simp: list_all_iff)
  qed
qed (rule assms(2))

lemma archive_run:
  assumes keep: "callersKeep mode e" and "mode (options s) = ''archive''"
  shows "\<exists>es. trace (fst (series (runTask e rel) ts s)) = trace s @ es
           \<and> list_all (\<lambda>x. \<not> synchronizeTransfer x) es"
proof (rule series_invariant [where I = "\<lambda>opts. mode opts = ''archive''"])
  fix t and s :: state
  assume arch: "mode (options s) = ''archive''"
  show "(\<exists>es. trace (fst (runTask e rel t s)) = trace s @ es \<and> list_all (\<lambda>x. \<not> synchronizeTransfer x) es)
      \<and> mode (options (fst (runTask e rel t s))) = ''archive''"
  proof (cases "t = UploadReleaseTask")
    case True
    then have "runTask e rel t s = (s, Next)"
      using arch by (simp add: uploadReleaseTask_def)
    then show ?thesis using arch by simp
  next
    case False
    obtain es where "trace (fst (runTask e rel t s)) = trace s @ es" "list_all (mayEmit t) es"
        "mode (options (fst (runTask e rel t s))) = mode (options s)"
      using task_step [OF keep, of rel t s] by blast
    then show ?thesis
      using arch no_synchronizeTransfer [OF False] by (auto simp: list_all_iff)
  qed
qed (rule assms(2))

lemma final_news:
  assumes "trace s1 = trace s @ es"
  shows "news s (fst (final cb (s1, r, started))) = es
       \<or> news s (fst (final cb (s1, r, started))) = es @ [Completion None]"
  using assms by (cases r; cases cb) (simp_all add: news_def)


text \<open>
  Claim C3. In a state whose options have mode \<^verbatim>\<open>synchronize\<close>, the compress, upload-archive
  and unpack tasks signal completion and leave the state as it is, under every
  environment: no transport call, no use of the archiver, no other event. In a state
  whose options have mode \<^verbatim>\<open>archive\<close>, the synchronize task does the same. For a whole
  deployment, which hands the options to the caller's hooks and command-list functions
  before these tasks run: when the caller's code does not assign to the mode, a
  deployment started with mode \<^verbatim>\<open>synchronize\<close> never uses the archiver or uploads an
  archive, and one started with mode \<^verbatim>\<open>archive\<close> never calls the transport's
  synchronization.
\<close>

theorem mode_selects_transfer:
  "(mode (options s) = ''synchronize'' \<longrightarrow>
      compressReleaseTask e rel s = (s, Next) \<and>
      uploadArchiveTask e rel s = (s, Next) \<and>
      decompressArchiveOnRemoteTask e rel s = (s, Next) \<and>
      (callersKeep mode e \<longrightarrow>
         list_all (\<lambda>x. \<not> archiveTransfer x) (news s (fst (deployRelease e rel cb s))))) \<and>
   (mode (options s) = ''archive'' \<longrightarrow>
      uploadReleaseTask e rel s = (s, Next) \<and>
      (callersKeep mode e \<longrightarrow>
         list_all (\<lambda>x. \<not> synchronizeTransfer x) (news s (fst (deployRelease e rel cb s)))))"
proof -
  obtain s1 r started where run: "series (runTask e rel) deployTasks s = (s1, r, started)"
    by (cases "series (runTask e rel) deployTasks s") auto
  have sync: "list_all (\<lambda>x. \<not> archiveTransfer x) (news s (fst (deployRelease e rel cb s)))"
    if m: "mode (options s) = ''synchronize''" and keep: "callersKeep mode e"
  proof -
    obtain es where es: "trace s1 = trace s @ es" "list_all (\<lambda>x. \<not> archiveTransfer x) es"
      using synchronize_run [OF keep m, of rel deployTasks] run by auto
    from final_news [OF es(1), of "orNoop cb" r started] es(2) show ?thesis
      unfolding deployRelease_def run by (auto simp: archiveTransfer_def)
  qed
  have arch: "list_all (\<lambda>x. \<not> synchronizeTransfer x) (news s (fst (deployRelease e rel cb s)))"
    if m: "mode (options s) = ''archive''" and keep: "callersKeep mode e"
  proof -
    obtain es where es: "trace s1 = trace s @ es" "list_all (\<lambda>x. \<not> synchronizeTransfer x) es"
      using archive_run [OF keep m, of rel deployTasks] run by auto
    from final_news [OF es(1), of "orNoop cb" r started] es(2) show ?thesis
      unfolding deployRelease_def run by (auto simp: synchronizeTransfer_def)
  qed
  show ?thesis
    using sync arch
    by (simp add: compressReleaseTask_def uploadArchiveTask_def decompressArchiveOnRemoteTask_def
      uploadReleaseTask_def)
qed

theorem mode_selects_transfer_witness:
  "mode (options (exampleState\<lparr>options := exampleOptions\<lparr>mode := ''synchronize''\<rparr>\<rparr>)) = ''synchronize'' \<and>
   callersKeep mode exampleEnv \<and>
   compressReleaseTask exampleEnv exampleRelease
       (exampleState\<lparr>options := exampleOptions\<lparr>mode := ''synchronize''\<rparr>\<rparr>)
     = (exampleState\<lparr>options := exampleOptions\<lparr>mode := ''synchronize''\<rparr>\<rparr>, Next) \<and>
   uploadArchiveTask exampleEnv exampleRelease
       (exampleState\<lparr>options := exampleOptions\<lparr>mode := ''synchronize''\<rparr>\<rparr>)
     = (exampleState\<lparr>options := exampleOptions\<lparr>mode := ''synchronize''\<rparr>\<rparr>, Next) \<and>
   decompressArchiveOnRemoteTask exampleEnv exampleRelease
       (exampleState\<lparr>options := exampleOptions\<lparr>mode := ''synchronize''\<rparr>\<rparr>)
     = (exampleState\<lparr>options := exampleOptions\<lparr>mode := ''synchronize''\<rparr>\<rparr>, Next) \<and>
   list_all (\<lambda>x. \<not> archiveTransfer x)
     (news (exampleState\<lparr>options := exampleOptions\<lparr>mode := ''synchronize''\<rparr>\<rparr>)
        (fst (deployRelease exampleEnv exampleRelease Caller
           (exampleState\<lparr>options := exampleOptions\<lparr>mode := ''synchronize''\<rparr>\<rparr>)))) \<and>
   mode (options exampleState) = ''archive'' \<and>
   uploadReleaseTask exampleEnv exampleRelease exampleState = (exampleState, Next) \<and>
   list_all (\<lambda>x. \<not> synchronizeTransfer x)
     (news exampleState (fst (deployRelease exampleEnv exampleRelease Caller exampleState)))"
proof -
  have sync: "mode (options (exampleState\<lparr>options := exampleOptions\<lparr>mode := ''synchronize''\<rparr>\<rparr>))
      = ''synchronize''"
    by simp
  have arch: "mode (options exampleState) = ''archive''"
    by (simp add: exampleState_def exampleOptions_def)
  have keep: "callersKeep mode exampleEnv"
    by (rule exampleEnv_keeps)
  show ?thesis
    using mode_selects_transfer
            [of "exampleState\<lparr>options := exampleOptions\<lparr>mode := ''synchronize''\<rparr>\<rparr>"
                exampleEnv exampleRelease Caller]
          mode_selects_transfer [of exampleState exampleEnv exampleRelease Caller]
          sync arch keep
    by blast
qed

subsection \<open>Retention cleanup\<close>

text \<open>
  Claim C6. Whatever the transport answers, the retention-cleanup task makes exactly one
  transport call: the removal of old folders, with the join of \<^verbatim>\<open>deployPath\<close> and
  \<^verbatim>\<open>releasesFolder\<close> as root and with \<^verbatim>\<open>releasesToKeep\<close>, raised to 1 when it is
  smaller, as the number to keep.
\<close>

theorem cleanup_prunes_once:
  "remoteCalls (news s (fst (remoteCleanupTask e rel s))) =
     [RemoveOldFolders (posix_join [deployPath (options s), releasesFolder (options s)])
        (max (releasesToKeep (options s)) 1)]"
  by (simp add: remoteCleanupTask_def remoteCall_def fst_called news_def Let_def max_def)


subsection \<open>The options object\<close>






text \<open>
  A hook that assigns to the options it receives changes the deployer's options: here
  the hooks set \<^verbatim>\<open>releasesToKeep\<close> to 7, and the deployment ends with 7.
\<close>

lemma hook_assignment_stays:
  "releasesToKeep (options (fst (deployRelease
      (exampleEnv\<lparr>hookOptions := (\<lambda>tr h opts. opts\<lparr>releasesToKeep := 7\<rparr>)\<rparr>)
      exampleRelease Caller exampleState))) = 7"
  by code_simp

subsection \<open>The completion callback\<close>

text \<open>
  Claim C7. Under every environment, the caller's completion callback is invoked by
  \<^verbatim>\<open>deployRelease\<close> and by \<^verbatim>\<open>removeRelease\<close> exactly once when the series ended, be
  it because every task signalled completion or because a task signalled an error, and
  not at all otherwise; and the invocation has no argument, so the error of a failed
  task does not reach the caller.
\<close>

theorem completion_without_error:
  "completions (news s (fst (deployRelease e rel cb s)))
     = (if ended (fst (snd (series (runTask e rel) deployTasks s))) \<and> cb = Caller
        then [None] else []) \<and>
   completions (news s (fst (removeRelease e rel cb s)))
     = (if ended (fst (snd (series (runTask e rel) removeTasks s))) \<and> cb = Caller
        then [None] else [])"
proof -
  have one: "completions (news s (fst (final (orNoop cb) (series (runTask e rel) ts s))))
     = (if ended (fst (snd (series (runTask e rel) ts s))) \<and> cb = Caller
        then [None] else [])" for ts
  proof -
    obtain s1 r started where run: "series (runTask e rel) ts s = (s1, r, started)"
      by (cases "series (runTask e rel) ts s") auto
    obtain es where "trace s1 = trace s @ es" "completions es = []"
      using series_completions [of e rel ts s] run by auto
    from final_completions [OF this] run show ?thesis by simp
  qed
  show ?thesis
    unfolding deployRelease_def removeRelease_def using one by blast
qed

theorem completion_after_failure:
  "fst (snd (series (runTask failingHookEnv exampleRelease) deployTasks exampleState))
     = Fail ''hook failed'' \<and>
   completions (news exampleState
      (fst (deployRelease failingHookEnv exampleRelease Caller exampleState))) = [None]"
proof -
  have r: "fst (snd (series (runTask failingHookEnv exampleRelease) deployTasks exampleState))
     = Fail ''hook failed''"
    by code_simp
  show ?thesis
    using completion_without_error [of exampleState failingHookEnv exampleRelease Caller] r
    by simp
qed


text \<open>
  Claim C10. Without a completion callback the entry points behave as with the method
  \<^verbatim>\<open>noop\<close> as callback: the state is the one the series leaves, and when the series ended
  the call completes (no exception from calling undefined), while a series that broke
  off keeps its outcome.
\<close>

theorem absent_callback:
  "deployRelease e rel Absent s = deployRelease e rel Noop s \<and>
   removeRelease e rel Absent s = removeRelease e rel Noop s \<and>
   deployRelease e rel Absent s
     = (fst (series (runTask e rel) deployTasks s),
        if ended (fst (snd (series (runTask e rel) deployTasks s))) then Next
        else fst (snd (series (runTask e rel) deployTasks s))) \<and>
   removeRelease e rel Absent s
     = (fst (series (runTask e rel) removeTasks s),
        if ended (fst (snd (series (runTask e rel) removeTasks s))) then Next
        else fst (snd (series (runTask e rel) removeTasks s)))"
proof -
  have one: "final (orNoop Absent) (series (runTask e rel) ts s)
     = (fst (series (runTask e rel) ts s),
        if ended (fst (snd (series (runTask e rel) ts s))) then Next
        else fst (snd (series (runTask e rel) ts s)))" for ts
  proof -
    obtain s1 r started where run: "series (runTask e rel) ts s = (s1, r, started)"
      by (cases "series (runTask e rel) ts s") auto
    show ?thesis unfolding run by (cases r) simp_all
  qed
  show ?thesis
    unfolding deployRelease_def removeRelease_def using one by simp
qed


subsection \<open>Stages with nothing to do\<close>

text \<open>
  The optional lists and the command lists: an absent or empty list makes the stage
  signal completion without any call or log line, and with the state as it is, but for
  what a command-list function has assigned to the options. The stage for shared
  symlinks does so when \<^verbatim>\<open>share\<close> is absent.
\<close>

lemma skipped_stages_silent:
  "(share (options s) = None \<longrightarrow> updateSharedSymbolicLinkOnRemoteTask e rel s = (s, Next)) \<and>
   (create (options s) = None \<or> create (options s) = Some [] \<longrightarrow>
      createFolderTask e rel s = (s, Next)) \<and>
   (makeWritable (options s) = None \<or> makeWritable (options s) = Some [] \<longrightarrow>
      makeDirectoriesWritableTask e rel s = (s, Next)) \<and>
   (makeExecutable (options s) = None \<or> makeExecutable (options s) = Some [] \<longrightarrow>
      makeFilesExecutableTask e rel s = (s, Next)) \<and>
   (mw = MwAbsent \<or> mw = MwStatic [] \<longrightarrow> middlewareCallbackExecute e mw s = (s, Next)) \<and>
   (fst (commandsResult e (trace s) k (options s)) = None
      \<or> fst (commandsResult e (trace s) k (options s)) = Some [] \<longrightarrow>
      middlewareCallbackExecute e (MwDynamic k) s
        = (s\<lparr>options := snd (commandsResult e (trace s) k (options s))\<rparr>, Next))"
  by (auto simp: updateSharedSymbolicLinkOnRemoteTask_def createFolderTask_def
      makeDirectoriesWritableTask_def makeFilesExecutableTask_def middlewareCallbackExecute_def
      executeCommands_def)

text \<open>
  Claim C2, the failing case. The guard of the shared-symlink stage reads \<^verbatim>\<open>share.length\<close>,
  which an empty mapping does not have, so the stage is not skipped: under every
  environment it logs its heading and its \<^verbatim>\<open>Done\<close> line (and makes no transport call).
\<close>

theorem empty_share_is_logged:
  "updateSharedSymbolicLinkOnRemoteTask e rel (s\<lparr>options := (options s)\<lparr>share := Some []\<rparr>\<rparr>)
     = (emits [Logger (Subhead ''Update shared symlink on remote''), Logger (Ok ''Done'')]
          (s\<lparr>options := (options s)\<lparr>share := Some []\<rparr>\<rparr>),
        Next)"
  by (simp add: updateSharedSymbolicLinkOnRemoteTask_def shareLengthIsZero_def)


subsection \<open>Unpacking the archive\<close>

text \<open>
  In archive mode, the types \<^verbatim>\<open>zip\<close> and \<^verbatim>\<open>tar\<close> make one transport call, whose command
  is the extraction into the release path, a line break, and the removal of the
  archive. A type that is neither one of them nor the name of a member inherited by
  every object is fatal before any transport call.
\<close>

lemma decompress_supported:
  assumes "mode (options s) = ''archive''"
  shows "archiveType (options s) = ''zip'' \<longrightarrow>
           remoteCalls (news s (fst (decompressArchiveOnRemoteTask e rel s)))
             = [Exec (''unzip -q '' @ posix_join [path rel, archiveName (options s)]
                        @ '' -d '' @ path rel @ ''/'' @ [CHR 0x0A]
                        @ ''rm '' @ posix_join [path rel, archiveName (options s)]) False]"
    and "archiveType (options s) = ''tar'' \<longrightarrow>
           remoteCalls (news s (fst (decompressArchiveOnRemoteTask e rel s)))
             = [Exec (''tar -xvf '' @ posix_join [path rel, archiveName (options s)]
                        @ '' -C '' @ path rel @ ''/'' @ [CHR 0x0A]
                        @ ''rm '' @ posix_join [path rel, archiveName (options s)]) False]"
  using assms
  by (simp_all add: decompressArchiveOnRemoteTask_def untarMap_def remoteCall_def fst_called
        news_def Let_def)

lemma decompress_unsupported:
  assumes "mode (options s) = ''archive''"
    and "archiveType (options s) \<notin> set ([''zip'', ''tar''] @ objectPrototypeMembers)"
  shows "decompressArchiveOnRemoteTask e rel s
           = (emits [Logger (Subhead ''Decompress archive on remote''),
                     Logger (StartSpinner ''Decompressing''),
                     Logger (Fatal (archiveType (options s) @ '' not supported.''))] s,
              Exited)"
  using assms
  by (simp add: decompressArchiveOnRemoteTask_def untarMap_def fatal_def Let_def)

lemma rar_unsupported:
  "decompressArchiveOnRemoteTask exampleEnv exampleRelease
       (exampleState\<lparr>options := exampleOptions\<lparr>archiveType := ''rar''\<rparr>\<rparr>)
     = (emits [Logger (Subhead ''Decompress archive on remote''),
               Logger (StartSpinner ''Decompressing''),
               Logger (Fatal ''rar not supported.'')]
          (exampleState\<lparr>options := exampleOptions\<lparr>archiveType := ''rar''\<rparr>\<rparr>),
        Exited)"
  by code_simp


text \<open>
  Claim C4, the failing case. The check \<^verbatim>\<open>!untarMap[archiveType]\<close> finds the members that
  the object literal inherits: for the archive type \<^verbatim>\<open>constructor\<close> nothing is fatal, and
  the text of the inherited function is sent to the transport, followed by the removal
  of the archive.
\<close>

theorem inherited_archive_type_is_executed:
  "decompressArchiveOnRemoteTask exampleEnv exampleRelease
       (exampleState\<lparr>options := exampleOptions\<lparr>archiveType := ''constructor''\<rparr>\<rparr>)
     = (emits [Logger (Subhead ''Decompress archive on remote''),
               Logger (StartSpinner ''Decompressing''),
               Remote (Exec (''function Object() { [native code] }'' @ [CHR 0x0A]
                        @ ''rm /srv/app/releases/t4/release.tar.gz'') False),
               Logger StopSpinner,
               Logger (Ok ''Done'')]
          (exampleState\<lparr>options := exampleOptions\<lparr>archiveType := ''constructor''\<rparr>\<rparr>),
        Next)"
  by code_simp


subsection \<open>Shared symlinks\<close>

lemma called_eq: "called es (r, s) = (if r = NoCallback then (s, Stalled) else (emits es s, Next))"
  by (cases r) simp_all

lemma shareItem_calls:
  "remoteCalls (news s (fst (shareItem e rel item s)))
     = (if linkReply e rel item s = NoCallback
        then take 1 (linkCalls e rel (options s) item)
        else linkCalls e rel (options s) item)"
  by (simp add: shareItem_def linkCalls_def linkReply_def remoteCall_def called_eq news_def Let_def
      split: option.splits reply.splits)

lemma shareItem_replied:
  assumes "\<forall>tr c. remoteReply e tr c \<noteq> NoCallback" and "upwardPath e (snd item) \<noteq> None"
  shows "\<exists>es. shareItem e rel item s = (emits es s, Next)
           \<and> remoteCalls es = linkCalls e rel (options s) item"
proof -
  obtain up where up: "upwardPath e (snd item) = Some up"
    using assms(2) by auto
  show ?thesis
    using assms(1) up
    by (simp add: shareItem_def linkCalls_def remoteCall_def called_eq Let_def
        split: option.splits reply.splits)
qed

lemma eachSeries_replied:
  assumes "\<forall>tr c. remoteReply e tr c \<noteq> NoCallback"
    and "\<forall>item\<in>set sh. upwardPath e (snd item) \<noteq> None"
  shows "\<exists>es. eachSeries (shareItem e rel) sh s = (emits es s, Next)
           \<and> remoteCalls es = concat (map (linkCalls e rel (options s)) sh)"
  using assms(2)
proof (induction sh arbitrary: s)
  case Nil
  show ?case by (intro exI [of _ "[]"]) simp
next
  case (Cons item sh)
  obtain es where es: "shareItem e rel item s = (emits es s, Next)"
      "remoteCalls es = linkCalls e rel (options s) item"
    using shareItem_replied [OF assms(1), of item rel s] Cons.prems by auto
  obtain ds where ds: "eachSeries (shareItem e rel) sh (emits es s) = (emits ds (emits es s), Next)"
      "remoteCalls ds = concat (map (linkCalls e rel (options (emits es s))) sh)"
    using Cons.IH [of "emits es s"] Cons.prems by auto
  show ?case
    using es ds by (intro exI [of _ "es @ ds"]) simp
qed


text \<open>
  Claim C8, as amended. For every property of \<^verbatim>\<open>share\<close> and under every environment, the
  transport calls of the iteratee are: the creation of the link, and after it, if and
  only if the transport has answered that call and the descriptor has a mode that is not
  the empty string, the change of the link's mode. So no mode is changed for an absent
  or empty mode, and never before the link's creation. When the transport answers every
  call and the helper accepts every symlink name, the stage makes exactly these calls
  for the properties in their order, and signals completion.
\<close>

theorem chmod_follows_truthy_mode:
  "(\<forall>item. remoteCalls (news s (fst (shareItem e rel item s)))
      = (if linkReply e rel item s = NoCallback
         then take 1 (linkCalls e rel (options s) item)
         else linkCalls e rel (options s) item)) \<and>
   (share (options s) = Some sh \<and> \<not> shareLengthIsZero e sh \<and>
    (\<forall>tr c. remoteReply e tr c \<noteq> NoCallback) \<and>
    (\<forall>item\<in>set sh. upwardPath e (snd item) \<noteq> None) \<longrightarrow>
      snd (updateSharedSymbolicLinkOnRemoteTask e rel s) = Next \<and>
      remoteCalls (news s (fst (updateSharedSymbolicLinkOnRemoteTask e rel s)))
        = concat (map (linkCalls e rel (options s)) sh))"
proof (intro conjI allI impI)
  fix item
  show "remoteCalls (news s (fst (shareItem e rel item s)))
      = (if linkReply e rel item s = NoCallback
         then take 1 (linkCalls e rel (options s) item)
         else linkCalls e rel (options s) item)"
    by (rule shareItem_calls)
next
  assume a: "share (options s) = Some sh \<and> \<not> shareLengthIsZero e sh \<and>
    (\<forall>tr c. remoteReply e tr c \<noteq> NoCallback) \<and>
    (\<forall>item\<in>set sh. upwardPath e (snd item) \<noteq> None)"
  let ?s1 = "emits [Logger (Subhead ''Update shared symlink on remote'')] s"
  obtain es where es: "eachSeries (shareItem e rel) sh ?s1 = (emits es ?s1, Next)"
      "remoteCalls es = concat (map (linkCalls e rel (options ?s1)) sh)"
    using eachSeries_replied [of e sh rel ?s1] a by blast
  have run: "updateSharedSymbolicLinkOnRemoteTask e rel s
      = (emits (es @ [Logger (Ok ''Done'')]) ?s1, Next)"
    using a es(1) by (simp add: updateSharedSymbolicLinkOnRemoteTask_def)
  show "snd (updateSharedSymbolicLinkOnRemoteTask e rel s) = Next"
    using run by simp
  show "remoteCalls (news s (fst (updateSharedSymbolicLinkOnRemoteTask e rel s)))
        = concat (map (linkCalls e rel (options s)) sh)"
    using run es(2) by simp
qed


theorem chmod_follows_truthy_mode_witness:
  "share (options exampleState)
     = Some [(''x'', Name ''logs''), (''img'', Descriptor (Some ''app/images'') (Some ''ugo+w''))] \<and>
   snd (updateSharedSymbolicLinkOnRemoteTask exampleEnv exampleRelease exampleState) = Next \<and>
   remoteCalls (news exampleState
       (fst (updateSharedSymbolicLinkOnRemoteTask exampleEnv exampleRelease exampleState)))
     = [CreateSymboliclink ''../../shared/x'' ''/srv/app/releases/t4/logs'',
        CreateSymboliclink ''../../../shared/img'' ''/srv/app/releases/t4/app/images'',
        Chmod ''/srv/app/releases/t4/app/images'' ''ugo+w'']"
proof -
  let ?sh = "[(''x'', Name ''logs''), (''img'', Descriptor (Some ''app/images'') (Some ''ugo+w''))]"
  have a: "share (options exampleState) = Some ?sh"
    by (simp add: exampleState_def exampleOptions_def)
  have b: "\<not> shareLengthIsZero exampleEnv ?sh"
    by (simp add: shareLengthIsZero_def)
  have c: "\<forall>tr c. remoteReply exampleEnv tr c \<noteq> NoCallback"
    by (simp add: exampleEnv_def)
  have d: "\<forall>item\<in>set ?sh. upwardPath exampleEnv (snd item) \<noteq> None"
    by (simp add: upwardPath_def)
  have calls: "concat (map (linkCalls exampleEnv exampleRelease (options exampleState)) ?sh)
     = [CreateSymboliclink ''../../shared/x'' ''/srv/app/releases/t4/logs'',
        CreateSymboliclink ''../../../shared/img'' ''/srv/app/releases/t4/app/images'',
        Chmod ''/srv/app/releases/t4/app/images'' ''ugo+w'']"
    by code_simp
  show ?thesis
    using chmod_follows_truthy_mode [of exampleState exampleEnv exampleRelease ?sh] a b c d calls
    by simp
qed

text \<open>
  Claim C8 as stated fails: a descriptor with the mode given as the empty string gets
  its link and no change of mode.
\<close>

theorem empty_mode_is_not_applied:
  "remoteCalls (news exampleState
       (fst (updateSharedSymbolicLinkOnRemoteTask exampleEnv exampleRelease
          (exampleState\<lparr>options := exampleOptions
             \<lparr>share := Some [(''x'', Descriptor (Some ''logs'') (Some ''''))]\<rparr>\<rparr>))))
     = [CreateSymboliclink ''../../shared/x'' ''/srv/app/releases/t4/logs'']"
  by code_simp

subsection \<open>The target of a shared symlink\<close>

lemma splitOn_not_Nil [simp]: "splitOn c p \<noteq> []"
  by (induction p) (auto split: list.splits)

lemma splitOn_sep: "splitOn c (xs @ c # ys) = splitOn c xs @ splitOn c ys"
proof (induction xs)
  case Nil
  show ?case by simp
next
  case (Cons x xs)
  obtain p ps where "splitOn c xs = p # ps"
    using splitOn_not_Nil [of c xs] by (cases "splitOn c xs") auto
  with Cons show ?case by simp
qed

lemma count_list_append [simp]: "count_list (xs @ ys) a = count_list xs a + count_list ys a"
  by (induction xs) simp_all

lemma dotdots_sep: "dotdots (xs @ CHR ''/'' # ys) = dotdots xs + dotdots ys"
  by (simp add: dotdots_def splitOn_sep)

lemma dotdots_linkTarget:
  assumes "dotdots (sharedFolder opts) = 0" and "dotdots key = 0"
  shows "dotdots (linkTarget up opts key) = dotdots up + 1"
proof -
  have "linkTarget up opts key
      = up @ CHR ''/'' # (''..'' @ CHR ''/'' # (sharedFolder opts @ CHR ''/'' # key))"
    by (simp add: linkTarget_def)
  moreover have "dotdots ''..'' = 1"
    by (simp add: dotdots_def)
  ultimately show ?thesis
    using assms by (simp only: dotdots_sep)
qed

text \<open>
  Whatever the helper returns, the target ends in \<^verbatim>\<open>/../\<close>, the shared folder, a separator
  and the key, so it is never the string \<^verbatim>\<open>../shared/x\<close>.
\<close>

lemma linkTarget_never_one_level:
  "sharedFolder opts = ''shared'' \<Longrightarrow> linkTarget up opts ''x'' \<noteq> ''../shared/x''"
proof
  assume "sharedFolder opts = ''shared''" and "linkTarget up opts ''x'' = ''../shared/x''"
  then have "length (up @ ''/../shared/x'') = length ''../shared/x''"
    by (simp add: linkTarget_def)
  then show False by simp
qed


text \<open>
  Claim C9, as amended. For every symlink name and folder key, and whatever the helper
  \<^verbatim>\<open>utils.getReversePath\<close> returns, the target of the link is the helper's upward path for
  the name followed by \<^verbatim>\<open>/../\<close>, the shared folder, a separator and the key: it has exactly
  one \<^verbatim>\<open>..\<close> segment more than the upward path (the shared folder and the key having
  none), so one per level of the name and one more when the upward path has one per
  level; and with the shared folder \<^verbatim>\<open>shared\<close> and the key \<^verbatim>\<open>x\<close> it is never
  \<^verbatim>\<open>../shared/x\<close>. When the helper returns \<^verbatim>\<open>..\<close> for the name \<^verbatim>\<open>logs\<close>, the target is
  \<^verbatim>\<open>../../shared/x\<close>; when it returns \<^verbatim>\<open>../..\<close> for \<^verbatim>\<open>app/logs\<close>, the target is
  \<^verbatim>\<open>../../../shared/x\<close>.
\<close>

theorem link_target_levels:
  "(dotdots (sharedFolder opts) = 0 \<and> dotdots key = 0 \<longrightarrow>
      dotdots (linkTarget (getReversePath e link) opts key)
        = dotdots (getReversePath e link) + 1) \<and>
   (dotdots (getReversePath e link) = length (splitOn CHR ''/'' link) \<and>
    dotdots (sharedFolder opts) = 0 \<and> dotdots key = 0 \<longrightarrow>
      dotdots (linkTarget (getReversePath e link) opts key)
        = length (splitOn CHR ''/'' link) + 1) \<and>
   (sharedFolder opts = ''shared'' \<longrightarrow>
      linkTarget (getReversePath e link) opts ''x'' \<noteq> ''../shared/x'') \<and>
   (getReversePath e ''logs'' = ''..'' \<and> sharedFolder opts = ''shared'' \<longrightarrow>
      linkTarget (getReversePath e ''logs'') opts ''x'' = ''../../shared/x'') \<and>
   (getReversePath e ''app/logs'' = ''../..'' \<and> sharedFolder opts = ''shared'' \<longrightarrow>
      linkTarget (getReversePath e ''app/logs'') opts ''x'' = ''../../../shared/x'')"
proof (intro conjI impI)
  assume "dotdots (sharedFolder opts) = 0 \<and> dotdots key = 0"
  then show "dotdots (linkTarget (getReversePath e link) opts key)
        = dotdots (getReversePath e link) + 1"
    by (simp add: dotdots_linkTarget)
next
  assume "dotdots (getReversePath e link) = length (splitOn CHR ''/'' link) \<and>
    dotdots (sharedFolder opts) = 0 \<and> dotdots key = 0"
  then show "dotdots (linkTarget (getReversePath e link) opts key)
        = length (splitOn CHR ''/'' link) + 1"
    by (simp add: dotdots_linkTarget)
next
  assume "sharedFolder opts = ''shared''"
  then show "linkTarget (getReversePath e link) opts ''x'' \<noteq> ''../shared/x''"
    by (rule linkTarget_never_one_level)
next
  assume "getReversePath e ''logs'' = ''..'' \<and> sharedFolder opts = ''shared''"
  then show "linkTarget (getReversePath e ''logs'') opts ''x'' = ''../../shared/x''"
    by (simp add: linkTarget_def)
next
  assume "getReversePath e ''app/logs'' = ''../..'' \<and> sharedFolder opts = ''shared''"
  then show "linkTarget (getReversePath e ''app/logs'') opts ''x'' = ''../../../shared/x''"
    by (simp add: linkTarget_def)
qed

theorem link_target_levels_witness:
  "dotdots (sharedFolder exampleOptions) = 0 \<and> dotdots ''img'' = 0 \<and>
   dotdots (getReversePath exampleEnv ''app/images'') = length (splitOn CHR ''/'' ''app/images'') \<and>
   dotdots (linkTarget (getReversePath exampleEnv ''app/images'') exampleOptions ''img'') = 3 \<and>
   sharedFolder exampleOptions = ''shared'' \<and>
   linkTarget (getReversePath exampleEnv ''app/images'') exampleOptions ''x'' \<noteq> ''../shared/x'' \<and>
   getReversePath exampleEnv ''logs'' = ''..'' \<and>
   linkTarget (getReversePath exampleEnv ''logs'') exampleOptions ''x'' = ''../../shared/x'' \<and>
   getReversePath exampleEnv ''app/logs'' = ''../..'' \<and>
   linkTarget (getReversePath exampleEnv ''app/logs'') exampleOptions ''x'' = ''../../../shared/x''"
proof -
  have a: "dotdots (sharedFolder exampleOptions) = 0" "dotdots ''img'' = 0"
      "sharedFolder exampleOptions = ''shared''"
      "length (splitOn CHR ''/'' ''app/images'') = 2"
      "dotdots (getReversePath exampleEnv ''app/images'') = 2"
      "getReversePath exampleEnv ''logs'' = ''..''"
      "getReversePath exampleEnv ''app/logs'' = ''../..''"
    by code_simp+
  show ?thesis
    using link_target_levels [of exampleOptions "''img''" exampleEnv "''app/images''"] a
    by simp
qed

text \<open>
  Claim C9 as stated fails: with the shared folder \<^verbatim>\<open>shared\<close>, the target for the name
  \<^verbatim>\<open>logs\<close> and the key \<^verbatim>\<open>x\<close> is not \<^verbatim>\<open>../shared/x\<close>.
\<close>

theorem link_target_of_plain_name:
  "sharedFolder exampleOptions = ''shared'' \<and>
   linkTarget (getReversePath exampleEnv ''logs'') exampleOptions ''x'' \<noteq> ''../shared/x''"
  by code_simp

end
